theory Spec2Isabelle
  imports Main
begin

section \<open>JavaScript values\<close>

text \<open>
  The engine works on untyped JSON-like data (\<^verbatim>\<open>any\<close> in the TypeScript source):
  trigger data, action descriptors, step results. An object is the list of its own
  enumerable entries in the order \<^verbatim>\<open>Object.entries\<close> lists them. A number is given
  by its string form, the text \<^verbatim>\<open>Number.prototype.toString\<close> prints for it
  (\<^verbatim>\<open>42\<close>, \<^verbatim>\<open>-1.5\<close>, \<^verbatim>\<open>1e+21\<close>, \<^verbatim>\<open>NaN\<close>, \<^verbatim>\<open>Infinity\<close>): the engine, the
  dispatcher and the resolver never compute with a number, they print it or pass it
  on. The characters of a string are the code units below 256. \<open>JProto p kvs\<close> is an
  ordinary object with the own entries \<open>kvs\<close> whose prototype is the value \<open>p\<close> (an
  object, an array or \<^verbatim>\<open>null\<close>) in place of \<^verbatim>\<open>Object.prototype\<close>: what a write to
  \<^verbatim>\<open>__proto__\<close> makes of a fresh object.
\<close>

datatype jsval =
    JUndefined
  | JNull
  | JBool bool
  | JNum string
  | JStr string
  | JArr "jsval list"
  | JObj "(string \<times> jsval) list"
  | JProto jsval "(string \<times> jsval) list"

text \<open>
  A property read can leave the JSON data: \<^verbatim>\<open>({})["constructor"]\<close> is the built-in
  function \<^verbatim>\<open>Object\<close>, found on the prototype chain. \<open>Host n\<close> is the built-in object
  named \<open>n\<close>.
\<close>

datatype looked = Val jsval | Host string

text \<open>
  The built-in objects belong to the JavaScript runtime, not to the repository, so they
  are a parameter of the model:
  \<^item> \<open>proto_get v k\<close>: what \<^verbatim>\<open>v[k]\<close> yields when \<open>k\<close> is not an own property of the
    value \<open>v\<close> (the lookup continues on the prototype chain), \<open>Val JUndefined\<close> when
    nothing is found;
  \<^item> \<open>host_get h k\<close>: the property \<open>k\<close> of the built-in object \<open>h\<close>;
  \<^item> \<open>host_is_array h\<close>: \<^verbatim>\<open>Array.isArray\<close> on a built-in object;
  \<^item> \<open>host_string h\<close>: \<^verbatim>\<open>String(h)\<close>, \<open>None\<close> when the conversion throws;
  \<^item> \<open>array_like_string v\<close>: \<^verbatim>\<open>String(v)\<close> for an object \<open>v\<close> that inherits from an
    array, which is \<^verbatim>\<open>Array.prototype.join\<close> run on \<open>v\<close>, \<open>None\<close> when it throws.

  A read that throws (an accessor of a built-in object may) counts as a read of
  \<^verbatim>\<open>undefined\<close>: the resolver catches the fault and leaves the placeholder as it does
  for \<^verbatim>\<open>undefined\<close>.
\<close>

record runtime =
  proto_get :: "jsval \<Rightarrow> string \<Rightarrow> looked"
  host_get :: "string \<Rightarrow> string \<Rightarrow> looked"
  host_is_array :: "string \<Rightarrow> bool"
  host_string :: "string \<Rightarrow> string option"
  array_like_string :: "jsval \<Rightarrow> string option"

subsection \<open>Numbers and strings\<close>

definition digit_char :: "nat \<Rightarrow> char" where
  "digit_char d = ''0123456789'' ! d"

fun decimal :: "nat \<Rightarrow> string" where
  "decimal n = (if n < 10 then [digit_char n] else decimal (n div 10) @ [digit_char (n mod 10)])"

declare decimal.simps [simp del]

definition is_digit :: "char \<Rightarrow> bool" where
  "is_digit c = (48 \<le> (of_char c :: nat) \<and> (of_char c :: nat) \<le> 57)"

text \<open>\<^verbatim>\<open>key.match(/^\d+$/)\<close>\<close>

definition is_digits :: "string \<Rightarrow> bool" where
  "is_digits key = (key \<noteq> [] \<and> (\<forall>c \<in> set key. is_digit c))"

text \<open>\<^verbatim>\<open>parseInt(key)\<close> on a string of digits.\<close>

definition parseInt :: "string \<Rightarrow> nat" where
  "parseInt key = foldl (\<lambda>n c. 10 * n + ((of_char c :: nat) - 48)) 0 key"

text \<open>\<^verbatim>\<open>xs.join(",")\<close> on the string forms of the elements; a conversion that throws
  makes the join throw.\<close>

fun join_comma :: "string option list \<Rightarrow> string option" where
  "join_comma [] = Some []"
| "join_comma [x] = x"
| "join_comma (x # y # ys) =
     (case x of None \<Rightarrow> None
      | Some s \<Rightarrow> (case join_comma (y # ys) of None \<Rightarrow> None | Some t \<Rightarrow> Some (s @ '','' @ t)))"

text \<open>
  The entry \<open>k\<close> of an object as its own entries and those of the prototypes that
  writes have given it hold it, the nearest first, and the value its chain of such
  prototypes ends with.
\<close>

fun data_get :: "jsval \<Rightarrow> string \<Rightarrow> jsval option" where
  "data_get (JObj kvs) k = map_of kvs k"
| "data_get (JProto p kvs) k = (case map_of kvs k of Some x \<Rightarrow> Some x | None \<Rightarrow> data_get p k)"
| "data_get v k = None"

fun chain_end :: "jsval \<Rightarrow> jsval" where
  "chain_end (JProto p kvs) = chain_end p"
| "chain_end v = v"

text \<open>
  \<^verbatim>\<open>String(v)\<close>, also what a template literal \<^verbatim>\<open>`${v}`\<close> computes. \<open>None\<close> is the
  TypeError "Cannot convert object to primitive value": an object for which
  \<^verbatim>\<open>toString\<close> is an entry (a JSON value is never callable), hiding the built-in
  method, has no string form, and neither has an object whose chain of prototypes ends
  with \<^verbatim>\<open>null\<close>. The built-in method is \<^verbatim>\<open>Object.prototype.toString\<close>, or
  \<^verbatim>\<open>Array.prototype.toString\<close> for an array and for an object that inherits from one.
\<close>

fun to_string :: "runtime \<Rightarrow> jsval \<Rightarrow> string option" where
  "to_string rt JUndefined = Some ''undefined''"
| "to_string rt JNull = Some ''null''"
| "to_string rt (JBool b) = Some (if b then ''true'' else ''false'')"
| "to_string rt (JNum n) = Some n"
| "to_string rt (JStr s) = Some s"
| "to_string rt (JArr xs) =
     join_comma (map (\<lambda>x. if x = JUndefined \<or> x = JNull then Some [] else to_string rt x) xs)"
| "to_string rt (JObj kvs) =
     (if ''toString'' \<in> fst ` set kvs then None else Some ''[object Object]'')"
| "to_string rt (JProto p kvs) =
     (if data_get (JProto p kvs) ''toString'' \<noteq> None then None
      else (case chain_end p of
              JNull \<Rightarrow> None
            | JArr xs \<Rightarrow> array_like_string rt (JProto p kvs)
            | _ \<Rightarrow> Some ''[object Object]''))"

definition looked_string :: "runtime \<Rightarrow> looked \<Rightarrow> string option" where
  "looked_string rt x = (case x of Val v \<Rightarrow> to_string rt v | Host h \<Rightarrow> host_string rt h)"

text \<open>\<^verbatim>\<open>s.trim()\<close>: the white space and line terminators among the code units below 256.\<close>

definition is_space :: "char \<Rightarrow> bool" where
  "is_space c = (of_char c \<in> {9, 10, 11, 12, 13, 32, 160 :: nat})"

definition trim :: "string \<Rightarrow> string" where
  "trim s = rev (dropWhile is_space (rev (dropWhile is_space s)))"

text \<open>\<^verbatim>\<open>path.split('.')\<close>\<close>

fun split_dot :: "string \<Rightarrow> string list" where
  "split_dot [] = [[]]"
| "split_dot (c # cs) =
     (if c = CHR ''.'' then [] # split_dot cs
      else (case split_dot cs of [] \<Rightarrow> [[c]] | w # ws \<Rightarrow> (c # w) # ws))"

subsection \<open>Writing a property\<close>

text \<open>
  Defining the own entry \<open>k\<close> of an ordinary object: an own entry is replaced in place.
  A new key that is an array index (canonical decimal below \<open>2^32 - 1\<close>) is listed
  among the index keys in ascending order, before every other key; any other new key
  goes last.
\<close>

definition is_index :: "string \<Rightarrow> bool" where
  "is_index k = (is_digits k \<and> (k = ''0'' \<or> hd k \<noteq> CHR ''0'') \<and> parseInt k < 4294967295)"

fun insert_index :: "string \<Rightarrow> jsval \<Rightarrow> (string \<times> jsval) list \<Rightarrow> (string \<times> jsval) list" where
  "insert_index k v [] = [(k, v)]"
| "insert_index k v ((k', v') # kvs) =
     (if is_index k' \<and> parseInt k' < parseInt k then (k', v') # insert_index k v kvs
      else (k, v) # (k', v') # kvs)"

definition obj_set :: "(string \<times> jsval) list \<Rightarrow> string \<Rightarrow> jsval \<Rightarrow> (string \<times> jsval) list" where
  "obj_set kvs k v =
     (if k \<in> fst ` set kvs then map (\<lambda>(k', v'). if k' = k then (k', v) else (k', v')) kvs
      else if is_index k then insert_index k v kvs
      else kvs @ [(k, v)])"

text \<open>
  \<^verbatim>\<open>result[key] = value\<close> on an ordinary object, given by its prototype (\<open>None\<close> is
  \<^verbatim>\<open>Object.prototype\<close>) and its own entries. The write defines the own entry, with one
  exception: for the key \<^verbatim>\<open>__proto__\<close>, when the object has no such own entry and
  inherits the accessor of \<^verbatim>\<open>Object.prototype\<close> (no prototype in between holds an
  entry of that name, and the chain does not end with \<^verbatim>\<open>null\<close>), the write runs the
  setter: no entry is created, and the value becomes the prototype of the object when
  it is an object, an array or \<^verbatim>\<open>null\<close>.
\<close>

definition settable_proto :: "jsval \<Rightarrow> bool" where
  "settable_proto v =
     (case v of JNull \<Rightarrow> True | JArr xs \<Rightarrow> True | JObj kvs \<Rightarrow> True | JProto p kvs \<Rightarrow> True
      | _ \<Rightarrow> False)"

definition inherits_setter :: "jsval option \<Rightarrow> bool" where
  "inherits_setter pr =
     (case pr of None \<Rightarrow> True
      | Some p \<Rightarrow> data_get p ''__proto__'' = None \<and> chain_end p \<noteq> JNull)"

definition obj_write ::
  "jsval option \<times> (string \<times> jsval) list \<Rightarrow> string \<Rightarrow> jsval
     \<Rightarrow> jsval option \<times> (string \<times> jsval) list" where
  "obj_write r k v =
     (case r of (pr, kvs) \<Rightarrow>
        if k = ''__proto__'' \<and> k \<notin> fst ` set kvs \<and> inherits_setter pr
        then (if settable_proto v then Some v else pr, kvs)
        else (pr, obj_set kvs k v))"

definition make_object :: "jsval option \<times> (string \<times> jsval) list \<Rightarrow> jsval" where
  "make_object r = (case r of (None, kvs) \<Rightarrow> JObj kvs | (Some p, kvs) \<Rightarrow> JProto p kvs)"

section \<open>Variable resolver (variableSubstitution.ts)\<close>

text \<open>
  \<^verbatim>\<open>current[key]\<close> for a key that is not all digits, on a value that is neither
  \<^verbatim>\<open>null\<close> nor \<^verbatim>\<open>undefined\<close>: own properties first (\<open>own_get\<close>), then the prototype
  chain. On the chain of an object with a prototype of its own (\<open>inherited\<close>, \<open>rp\<close>
  being that prototype), the entries and own properties of the prototypes come first,
  the nearest first; where the chain goes on into the built-in prototypes,
  \<^verbatim>\<open>__proto__\<close> is the accessor that yields the prototype of the object the read
  started from.
\<close>

fun own_get :: "jsval \<Rightarrow> string \<Rightarrow> jsval option" where
  "own_get (JObj kvs) k = map_of kvs k"
| "own_get (JProto p kvs) k = map_of kvs k"
| "own_get (JArr xs) k = (if k = ''length'' then Some (JNum (decimal (length xs))) else None)"
| "own_get (JStr s) k = (if k = ''length'' then Some (JNum (decimal (length s))) else None)"
| "own_get v k = None"

fun inherited :: "runtime \<Rightarrow> jsval \<Rightarrow> jsval \<Rightarrow> string \<Rightarrow> looked" where
  "inherited rt rp (JProto p kvs) k =
     (case map_of kvs k of Some x \<Rightarrow> Val x | None \<Rightarrow> inherited rt rp p k)"
| "inherited rt rp JNull k = Val JUndefined"
| "inherited rt rp v k =
     (case own_get v k of
        Some x \<Rightarrow> Val x
      | None \<Rightarrow> if k = ''__proto__'' then Val rp else proto_get rt v k)"

fun get_prop :: "runtime \<Rightarrow> jsval \<Rightarrow> string \<Rightarrow> looked" where
  "get_prop rt (JProto p kvs) k =
     (case map_of kvs k of Some x \<Rightarrow> Val x | None \<Rightarrow> inherited rt p p k)"
| "get_prop rt v k = (case own_get v k of Some x \<Rightarrow> Val x | None \<Rightarrow> proto_get rt v k)"

text \<open>The loop of \<^verbatim>\<open>getNestedValue\<close> over the keys, \<open>current\<close> being its variable.\<close>

fun walk :: "runtime \<Rightarrow> looked \<Rightarrow> string list \<Rightarrow> looked" where
  "walk rt current [] = current"
| "walk rt current (key # keys) =
     (if current = Val JNull \<or> current = Val JUndefined then Val JUndefined
      else if is_digits key then
        (case current of
           Val (JArr xs) \<Rightarrow>
             walk rt (Val (if parseInt key < length xs then xs ! parseInt key else JUndefined)) keys
         | Val _ \<Rightarrow> Val JUndefined
         | Host h \<Rightarrow>
             if host_is_array rt h then walk rt (host_get rt h (decimal (parseInt key))) keys
             else Val JUndefined)
      else walk rt (case current of Val v \<Rightarrow> get_prop rt v key | Host h \<Rightarrow> host_get rt h key) keys)"

definition getNestedValue :: "runtime \<Rightarrow> jsval \<Rightarrow> string \<Rightarrow> looked" where
  "getNestedValue rt obj path = walk rt (Val obj) (split_dot path)"

text \<open>
  The regular expression \<^verbatim>\<open>/\{\{([^}]+)\}\}/\<close> anchored at the start of \<open>s\<close>: two
  opening braces, a non-empty run of characters other than \<^verbatim>\<open>}\<close> (the run is maximal,
  since the next character has to be \<^verbatim>\<open>}\<close>), two closing braces. The result is the
  captured path and the text after the match.
\<close>

definition match_at :: "string \<Rightarrow> (string \<times> string) option" where
  "match_at s =
     (if take 2 s = ''{{'' then
        (let path = takeWhile (\<lambda>c. c \<noteq> CHR ''}'') (drop 2 s);
             rest = dropWhile (\<lambda>c. c \<noteq> CHR ''}'') (drop 2 s)
         in if path \<noteq> [] \<and> take 2 rest = ''}}'' then Some (path, drop 2 rest) else None)
      else None)"

text \<open>\<^verbatim>\<open>str.replace(re, f)\<close> with the global flag: the leftmost match is replaced by
  \<open>f match path\<close> and the search goes on after it; where nothing matches, the
  character is kept.\<close>

function replace_all :: "(string \<Rightarrow> string \<Rightarrow> string) \<Rightarrow> string \<Rightarrow> string" where
  "replace_all f [] = []"
| "replace_all f (c # cs) =
     (case match_at (c # cs) of
        Some (path, rest) \<Rightarrow> f (''{{'' @ path @ ''}}'') path @ replace_all f rest
      | None \<Rightarrow> c # replace_all f cs)"
  by pat_completeness auto
termination
proof -
  have shorter: "length r < length s" if m: "match_at s = Some (p, r)" for s p r
  proof -
    have "length (dropWhile (\<lambda>c. c \<noteq> CHR ''}'') (drop 2 s)) \<le> length (drop 2 s)"
      by (rule length_dropWhile_le)
    moreover from m have "take 2 s = ''{{''"
      and "r = drop 2 (dropWhile (\<lambda>c. c \<noteq> CHR ''}'') (drop 2 s))"
      by (auto simp: match_at_def Let_def split: if_splits)
    moreover from \<open>take 2 s = ''{{''\<close> have "2 \<le> length s"
      by (cases s; cases "tl s") auto
    ultimately show ?thesis by simp
  qed
  show ?thesis
    by (relation "measure (\<lambda>(f, s). length s)") (auto dest: shorter)
qed

definition substituteInString :: "runtime \<Rightarrow> string \<Rightarrow> jsval \<Rightarrow> string" where
  "substituteInString rt str context =
     replace_all (\<lambda>match path.
        let value = getNestedValue rt context (trim path)
        in if value \<noteq> Val JUndefined
           then (case looked_string rt value of Some s \<Rightarrow> s | None \<Rightarrow> match)
           else match) str"

fun substituteVariables :: "runtime \<Rightarrow> jsval \<Rightarrow> jsval \<Rightarrow> jsval" where
  "substituteVariables rt (JStr s) context = JStr (substituteInString rt s context)"
| "substituteVariables rt (JArr xs) context =
     JArr (map (\<lambda>item. substituteVariables rt item context) xs)"
| "substituteVariables rt (JObj kvs) context =
     make_object
       (foldl (\<lambda>result (key, value). obj_write result key (substituteVariables rt value context))
          (None, []) kvs)"
| "substituteVariables rt (JProto p kvs) context =
     make_object
       (foldl (\<lambda>result (key, value). obj_write result key (substituteVariables rt value context))
          (None, []) kvs)"
| "substituteVariables rt obj context = obj"


section \<open>Execution store (Prisma)\<close>

text \<open>
  Modelled from the spec: the Prisma schema (\<^verbatim>\<open>prisma/schema.prisma\<close>) and the Prisma
  client are not among the sources, so the rows are the records of the spec's data
  model with the fields the engine and the handlers read and write, and the
  operations are the four the engine calls: create, update and findUnique on the
  executions, create on the notifications. The metadata of a Notification are the
  \<^verbatim>\<open>workflowId\<close> with the \<^verbatim>\<open>executionId\<close> that \<^verbatim>\<open>updateExecutionStatus\<close> gives it, or
  with the \<^verbatim>\<open>context\<close> that \<^verbatim>\<open>executeNotificationAction\<close> gives it.
\<close>

text \<open>\<^verbatim>\<open>workflow.configuration\<close>: \<open>None\<close> is a list that is missing.\<close>

record Configuration =
  triggers :: "jsval list option"
  actions :: "jsval list option"

record Workflow =
  workflow_id :: string
  workflow_userId :: string
  workflow_name :: string
  configuration :: Configuration

record Execution =
  exec_workflowId :: string
  status :: string
  startTime :: nat
  endTime :: "nat option"
  exec_input :: jsval
  exec_output :: "jsval option"
  exec_error :: "string option"

record Notification =
  notif_userId :: string
  notif_type :: string
  message :: string
  metadata_workflowId :: string
  metadata_executionId :: "nat option"
  metadata_context :: "(string \<times> jsval) list option"

datatype store_write =
    ExecutionCreate nat
  | ExecutionUpdate nat string
  | NotificationCreate Notification

text \<open>
  The database: an execution's id is its position in \<open>executions\<close>; \<open>workflows\<close> gives
  the Workflow row stored under an id, the id being the key: the relation
  \<^verbatim>\<open>Execution.workflow\<close> is required, so the join of
  \<^verbatim>\<open>findUnique({include: {workflow: true}})\<close> always has a row, and the id of that
  row is the \<^verbatim>\<open>workflowId\<close> of the execution. \<open>clock\<close> is what \<^verbatim>\<open>new Date()\<close> reads.
  The database is shared: the action handlers write it as well (see below), and time
  passes while they run.
\<close>

record database =
  workflows :: "string \<Rightarrow> Workflow"
  executions :: "Execution list"
  notifications :: "Notification list"
  clock :: nat

text \<open>
  The store is the database together with \<open>writes\<close>, the journal of the writes the
  engine itself makes, in the order it makes them. The journal is not a table: a
  handler gets the database and returns it, the engine keeps its journal across the
  call.
\<close>

record store = database +
  writes :: "store_write list"

definition tables :: "store \<Rightarrow> database" where
  "tables st =
     \<lparr>workflows = workflows st, executions = executions st, notifications = notifications st,
      clock = clock st\<rparr>"

definition with_tables :: "store \<Rightarrow> database \<Rightarrow> store" where
  "with_tables st db =
     \<lparr>workflows = workflows db, executions = executions db, notifications = notifications db,
      clock = clock db, writes = writes st\<rparr>"

text \<open>
  The store is taken to be reachable: the only failure modelled is an update of an
  execution that does not exist (any more).
\<close>

definition execution_create :: "store \<Rightarrow> string \<Rightarrow> jsval \<Rightarrow> nat \<times> store" where
  "execution_create st wid tdata =
     (length (executions st),
      st\<lparr>executions := executions st @
            [\<lparr>exec_workflowId = wid, status = ''running'', startTime = clock st, endTime = None,
              exec_input = tdata, exec_output = None, exec_error = None\<rparr>],
         writes := writes st @ [ExecutionCreate (length (executions st))]\<rparr>)"

definition execution_update ::
  "store \<Rightarrow> nat \<Rightarrow> string \<Rightarrow> string option \<Rightarrow> jsval option \<Rightarrow> store option" where
  "execution_update st executionId s err out =
     (if executionId < length (executions st) then
        Some (st\<lparr>executions := (executions st)[executionId :=
                     (executions st ! executionId)\<lparr>status := s, endTime := Some (clock st),
                        exec_error := err, exec_output := out\<rparr>],
                 writes := writes st @ [ExecutionUpdate executionId s]\<rparr>)
      else None)"

definition execution_findUnique :: "store \<Rightarrow> nat \<Rightarrow> (Execution \<times> Workflow) option" where
  "execution_findUnique st executionId =
     (if executionId < length (executions st)
      then Some (executions st ! executionId,
                 (workflows st (exec_workflowId (executions st ! executionId)))
                   \<lparr>workflow_id := exec_workflowId (executions st ! executionId)\<rparr>)
      else None)"

definition notification_create :: "store \<Rightarrow> Notification \<Rightarrow> store" where
  "notification_create st n =
     st\<lparr>notifications := notifications st @ [n], writes := writes st @ [NotificationCreate n]\<rparr>"

section \<open>Action dispatcher (actionHandlers)\<close>

text \<open>
  A thrown value: an \<^verbatim>\<open>Error\<close> instance with its message, or anything else
  (\<^verbatim>\<open>error instanceof Error\<close> tells them apart). The TypeErrors of the language carry
  the messages of the JavaScript engine, which the model leaves open.
\<close>

datatype thrown = ErrorObj string | NonError

datatype 'a outcome = Returned 'a | Threw thrown

datatype type_error =
    DestructureNullish jsval
  | ReadOfNullish jsval string
  | NoPrimitive

record messages =
  type_error_message :: "type_error \<Rightarrow> string"
  record_not_found :: string

definition TypeError :: "messages \<Rightarrow> type_error \<Rightarrow> thrown" where
  "TypeError ms e = ErrorObj (type_error_message ms e)"

record WorkflowContext =
  workflowId :: string
  userId :: string
  triggerData :: jsval
  variables :: "(string \<times> jsval) list"
  stepResults :: "(string \<times> jsval) list"

text \<open>The context as the object the resolver reads.\<close>

definition context_value :: "WorkflowContext \<Rightarrow> jsval" where
  "context_value c =
     JObj [(''workflowId'', JStr (workflowId c)), (''userId'', JStr (userId c)),
           (''triggerData'', triggerData c), (''variables'', JObj (variables c)),
           (''stepResults'', JObj (stepResults c))]"

text \<open>\<^verbatim>\<open>interface ActionResult\<close>: an absent \<^verbatim>\<open>data\<close> is \<open>JUndefined\<close>, an absent
  \<^verbatim>\<open>error\<close> is \<open>None\<close>.\<close>

record ActionResult =
  success :: bool
  data :: jsval
  error :: "string option"

text \<open>
  The six handlers call mail, HTTP, SMS and database services, and they write the
  database the engine keeps its executions in: \<^verbatim>\<open>executeNotificationAction\<close> creates a
  notification, \<^verbatim>\<open>executeDatabaseAction\<close> creates executions (an insert into
  \<^verbatim>\<open>logs\<close>) and creates, updates and deletes users and workflows with the data of the
  action. So the handlers are parameters: each takes the resolved config, the context,
  the database and the state \<open>'w\<close> of the outside world, and gives its outcome, the
  database as it leaves it, and the new state of the world. Every \<^verbatim>\<open>return\<close> of the
  handlers in the repository has one of two shapes, \<^verbatim>\<open>{success: true, data}\<close> or
  \<^verbatim>\<open>{success: false, error: "...", data?}\<close>; a handler that throws is allowed for as
  well.
\<close>

datatype reply = Succeeded jsval | Failed string jsval

fun reply_result :: "reply \<Rightarrow> ActionResult" where
  "reply_result (Succeeded d) = \<lparr>success = True, data = d, error = None\<rparr>"
| "reply_result (Failed e d) = \<lparr>success = False, data = d, error = Some e\<rparr>"

type_synonym 'w handler =
  "jsval \<Rightarrow> WorkflowContext \<Rightarrow> database \<Rightarrow> 'w \<Rightarrow> reply outcome \<times> database \<times> 'w"

record 'w handlers =
  executeEmailAction :: "'w handler"
  executeWebhookAction :: "'w handler"
  executeDatabaseAction :: "'w handler"
  executeSMSAction :: "'w handler"
  executeNotificationAction :: "'w handler"
  executeDelayAction :: "'w handler"

text \<open>What the dispatcher passes on from a handler that ran on the tables of the
  store \<open>st\<close>.\<close>

fun handler_result ::
  "store \<Rightarrow> reply outcome \<times> database \<times> 'w \<Rightarrow> ActionResult outcome \<times> store \<times> 'w" where
  "handler_result st (Returned r, db, w) = (Returned (reply_result r), with_tables st db, w)"
| "handler_result st (Threw e, db, w) = (Threw e, with_tables st db, w)"

text \<open>
  \<^verbatim>\<open>v.type\<close> and \<^verbatim>\<open>v.config\<close> on a value that is neither \<^verbatim>\<open>null\<close> nor
  \<^verbatim>\<open>undefined\<close>: the entry of the object, its own or that of a prototype a write has
  given it; no built-in prototype has a property of either name, so every other read
  is \<^verbatim>\<open>undefined\<close>.
\<close>

definition read_prop :: "jsval \<Rightarrow> string \<Rightarrow> jsval" where
  "read_prop v k = (case data_get v k of Some x \<Rightarrow> x | None \<Rightarrow> JUndefined)"

definition executeAction ::
  "runtime \<Rightarrow> messages \<Rightarrow> 'w handlers \<Rightarrow> jsval \<Rightarrow> WorkflowContext \<Rightarrow> store \<Rightarrow> 'w
     \<Rightarrow> ActionResult outcome \<times> store \<times> 'w" where
  "executeAction rt ms hs action context st w =
     (if action = JNull \<or> action = JUndefined
      then (Threw (TypeError ms (DestructureNullish action)), st, w)
      else
        let type = read_prop action ''type''; config = read_prop action ''config''
        in if type = JStr ''email'' then
             handler_result st (executeEmailAction hs config context (tables st) w)
           else if type = JStr ''webhook'' then
             handler_result st (executeWebhookAction hs config context (tables st) w)
           else if type = JStr ''database'' then
             handler_result st (executeDatabaseAction hs config context (tables st) w)
           else if type = JStr ''sms'' then
             handler_result st (executeSMSAction hs config context (tables st) w)
           else if type = JStr ''notification'' then
             handler_result st (executeNotificationAction hs config context (tables st) w)
           else if type = JStr ''delay'' then
             handler_result st (executeDelayAction hs config context (tables st) w)
           else (case to_string rt type of
                   Some t \<Rightarrow>
                     (Returned \<lparr>success = False, data = JUndefined,
                                error = Some (''Unknown action type: '' @ t)\<rparr>, st, w)
                 | None \<Rightarrow> (Threw (TypeError ms NoPrimitive), st, w)))"

section \<open>Execution engine (workflowEngine.ts)\<close>

text \<open>\<^verbatim>\<open>`${error}`\<close> for \<^verbatim>\<open>error: string | null\<close>, and for an optional string.\<close>

definition null_string :: "string option \<Rightarrow> string" where
  "null_string e = (case e of Some s \<Rightarrow> s | None \<Rightarrow> ''null'')"

definition undefined_string :: "string option \<Rightarrow> string" where
  "undefined_string e = (case e of Some s \<Rightarrow> s | None \<Rightarrow> ''undefined'')"

definition updateExecutionStatus ::
  "messages \<Rightarrow> store \<Rightarrow> nat \<Rightarrow> string \<Rightarrow> string option \<Rightarrow> jsval option \<Rightarrow> store outcome" where
  "updateExecutionStatus ms st executionId s err out =
     (case execution_update st executionId s err out of
        None \<Rightarrow> Threw (ErrorObj (record_not_found ms))
      | Some st1 \<Rightarrow>
          if s = ''failed'' then
            (case execution_findUnique st1 executionId of
               Some (execution, workflow) \<Rightarrow>
                 Returned (notification_create st1
                   \<lparr>notif_userId = workflow_userId workflow, notif_type = ''workflow_error'',
                    message = ''Workflow '' @ [CHR 0x22] @ workflow_name workflow @ [CHR 0x22] @
                      '' failed: '' @ null_string err,
                    metadata_workflowId = workflow_id workflow,
                    metadata_executionId = Some executionId,
                    metadata_context = None\<rparr>)
             | None \<Rightarrow> Returned st1)
          else Returned st1)"

definition validateTrigger ::
  "runtime \<Rightarrow> messages \<Rightarrow> jsval \<Rightarrow> WorkflowContext \<Rightarrow> ActionResult outcome" where
  "validateTrigger rt ms trigger context =
     (if trigger = JNull \<or> trigger = JUndefined then Threw (TypeError ms (ReadOfNullish trigger ''type''))
      else
        let type = read_prop trigger ''type''
        in if type = JStr ''webhook'' then
             Returned \<lparr>success = True, data = triggerData context, error = None\<rparr>
           else if type = JStr ''manual'' then
             Returned \<lparr>success = True, data = triggerData context, error = None\<rparr>
           else if type = JStr ''email'' then
             Returned \<lparr>success = True, data = triggerData context, error = None\<rparr>
           else if type = JStr ''schedule'' then
             Returned \<lparr>success = True, data = triggerData context, error = None\<rparr>
           else (case to_string rt type of
                   Some t \<Rightarrow>
                     Returned \<lparr>success = False, data = JUndefined,
                               error = Some (''Unknown trigger type: '' @ t)\<rparr>
                 | None \<Rightarrow> Threw (TypeError ms NoPrimitive)))"

record WorkflowResult = ActionResult +
  executionId :: nat

text \<open>
  How a loop of \<^verbatim>\<open>executeWorkflow\<close> ends: it runs to its end (\<open>Continue\<close>), it leaves
  the function by \<^verbatim>\<open>return\<close> after the terminal write (\<open>Return\<close>), or a fault escapes
  to the enclosing \<^verbatim>\<open>catch\<close> (\<open>Raise\<close>). Each carries the context, the store and the
  world as they are at that point.
\<close>

datatype 'w flow =
    Continue WorkflowContext store 'w
  | Return WorkflowResult store 'w WorkflowContext
  | Raise thrown store 'w WorkflowContext

text \<open>What a run leaves behind: the value returned (or the fault thrown) to the
  caller, the store, the world, and the context as the run last had it.\<close>

record 'w run =
  returned :: "WorkflowResult outcome"
  run_store :: store
  run_world :: 'w
  run_context :: WorkflowContext

text \<open>Line 55: the result of a validated trigger of type \<open>t\<close> is stored in the
  context. The key is not \<^verbatim>\<open>__proto__\<close>, so the write defines an own entry.\<close>

definition store_trigger_result :: "string \<Rightarrow> jsval \<Rightarrow> WorkflowContext \<Rightarrow> WorkflowContext" where
  "store_trigger_result t d context =
     context\<lparr>stepResults := obj_set (stepResults context) (''trigger_'' @ t) d\<rparr>"

text \<open>The \<^verbatim>\<open>for\<close> loop over the triggers (lines 45 to 56).\<close>

fun run_triggers ::
  "runtime \<Rightarrow> messages \<Rightarrow> nat \<Rightarrow> jsval list \<Rightarrow> WorkflowContext \<Rightarrow> store \<Rightarrow> 'w \<Rightarrow> 'w flow" where
  "run_triggers rt ms eid [] context st w = Continue context st w"
| "run_triggers rt ms eid (trigger # rest) context st w =
     (case validateTrigger rt ms trigger context of
        Threw e \<Rightarrow> Raise e st w context
      | Returned triggerResult \<Rightarrow>
          if \<not> success triggerResult then
            (case updateExecutionStatus ms st eid ''failed'' (error triggerResult) None of
               Threw e \<Rightarrow> Raise e st w context
             | Returned st1 \<Rightarrow>
                 Return \<lparr>success = False, data = JUndefined, error = error triggerResult,
                         executionId = eid\<rparr> st1 w context)
          else
            (case to_string rt (read_prop trigger ''type'') of
               None \<Rightarrow> Raise (TypeError ms NoPrimitive) st w context
             | Some t \<Rightarrow>
                 run_triggers rt ms eid rest (store_trigger_result t (data triggerResult) context)
                   st w))"

text \<open>The inner \<^verbatim>\<open>catch\<close> (lines 83 to 91) for the action of index \<open>i\<close>.\<close>

definition inner_catch ::
  "messages \<Rightarrow> nat \<Rightarrow> nat \<Rightarrow> thrown \<Rightarrow> WorkflowContext \<Rightarrow> store \<Rightarrow> 'w \<Rightarrow> 'w flow" where
  "inner_catch ms eid i e context st w =
     (let errorMessage = ''Action '' @ decimal (i + 1) @ '' error: '' @
            (case e of ErrorObj m \<Rightarrow> m | NonError \<Rightarrow> ''Unknown error'')
      in case updateExecutionStatus ms st eid ''failed'' (Some errorMessage) None of
           Threw e' \<Rightarrow> Raise e' st w context
         | Returned st1 \<Rightarrow>
             Return \<lparr>success = False, data = JUndefined, error = Some errorMessage,
                     executionId = eid\<rparr> st1 w context)"

text \<open>Lines 81 and 82: the result of the action of index \<open>i\<close> is stored in the
  context. Neither key is \<^verbatim>\<open>__proto__\<close>, so the writes define own entries.\<close>

definition store_action_result :: "nat \<Rightarrow> jsval \<Rightarrow> WorkflowContext \<Rightarrow> WorkflowContext" where
  "store_action_result i d context =
     context\<lparr>stepResults := obj_set (stepResults context) (''action_'' @ decimal i) d,
              variables := obj_set (variables context) (''action_'' @ decimal i @ ''_result'') d\<rparr>"

text \<open>The \<^verbatim>\<open>for\<close> loop over the actions (lines 61 to 92), from index \<open>i\<close> on. The
  store and the world go on as the handler of the action leaves them.\<close>

fun run_actions ::
  "runtime \<Rightarrow> messages \<Rightarrow> 'w handlers \<Rightarrow> nat \<Rightarrow> nat \<Rightarrow> jsval list \<Rightarrow> WorkflowContext \<Rightarrow> store \<Rightarrow> 'w
     \<Rightarrow> 'w flow" where
  "run_actions rt ms hs eid i [] context st w = Continue context st w"
| "run_actions rt ms hs eid i (action # rest) context st w =
     (let processedAction = substituteVariables rt action (context_value context)
      in case executeAction rt ms hs processedAction context st w of
           (Threw e, st1, w1) \<Rightarrow> inner_catch ms eid i e context st1 w1
         | (Returned actionResult, st1, w1) \<Rightarrow>
             if \<not> success actionResult then
               (case updateExecutionStatus ms st1 eid ''failed'' (error actionResult) None of
                  Threw e \<Rightarrow> inner_catch ms eid i e context st1 w1
                | Returned st2 \<Rightarrow>
                    Return \<lparr>success = False, data = JUndefined,
                            error = Some (''Action '' @ decimal (i + 1) @ '' failed: '' @
                                          undefined_string (error actionResult)),
                            executionId = eid\<rparr> st2 w1 context)
             else
               run_actions rt ms hs eid (i + 1) rest
                 (store_action_result i (data actionResult) context) st1 w1)"

text \<open>The outer \<^verbatim>\<open>catch\<close> (lines 103 to 112).\<close>

definition outer_catch ::
  "messages \<Rightarrow> nat \<Rightarrow> thrown \<Rightarrow> store \<Rightarrow> 'w \<Rightarrow> WorkflowContext \<Rightarrow> 'w run" where
  "outer_catch ms eid e st w context =
     (let errorMessage = (case e of ErrorObj m \<Rightarrow> m | NonError \<Rightarrow> ''Unknown workflow error'')
      in case updateExecutionStatus ms st eid ''failed'' (Some errorMessage) None of
           Threw e' \<Rightarrow> \<lparr>returned = Threw e', run_store = st, run_world = w, run_context = context\<rparr>
         | Returned st1 \<Rightarrow>
             \<lparr>returned = Returned \<lparr>success = False, data = JUndefined, error = Some errorMessage,
                                   executionId = eid\<rparr>,
              run_store = st1, run_world = w, run_context = context\<rparr>)"

text \<open>What \<^verbatim>\<open>executeWorkflow\<close> does with the way a loop ended; \<open>k\<close> is the rest of the
  function after the loop.\<close>

fun after_loop ::
  "messages \<Rightarrow> nat \<Rightarrow> 'w flow \<Rightarrow> (WorkflowContext \<Rightarrow> store \<Rightarrow> 'w \<Rightarrow> 'w run) \<Rightarrow> 'w run" where
  "after_loop ms eid (Continue context st w) k = k context st w"
| "after_loop ms eid (Return r st w context) k =
     \<lparr>returned = Returned r, run_store = st, run_world = w, run_context = context\<rparr>"
| "after_loop ms eid (Raise e st w context) k = outer_catch ms eid e st w context"

text \<open>The end of the \<^verbatim>\<open>try\<close> block (lines 95 to 102): all actions have run.\<close>

definition complete_run ::
  "messages \<Rightarrow> nat \<Rightarrow> WorkflowContext \<Rightarrow> store \<Rightarrow> 'w \<Rightarrow> 'w run" where
  "complete_run ms eid context st w =
     (case updateExecutionStatus ms st eid ''completed'' None (Some (JObj (stepResults context))) of
        Threw e \<Rightarrow> outer_catch ms eid e st w context
      | Returned st1 \<Rightarrow>
          \<lparr>returned = Returned \<lparr>success = True, data = JObj (stepResults context), error = None,
                                executionId = eid\<rparr>,
           run_store = st1, run_world = w, run_context = context\<rparr>)"

definition executeWorkflow ::
  "runtime \<Rightarrow> messages \<Rightarrow> 'w handlers \<Rightarrow> Workflow \<Rightarrow> jsval \<Rightarrow> store \<Rightarrow> 'w \<Rightarrow> 'w run" where
  "executeWorkflow rt ms hs workflow tdata0 st w =
     (let tdata = (if tdata0 = JUndefined then JObj [] else tdata0);
          (eid, st0) = execution_create st (workflow_id workflow) tdata;
          context = \<lparr>workflowId = workflow_id workflow, userId = workflow_userId workflow,
                     triggerData = tdata, variables = [(''trigger'', tdata)], stepResults = []\<rparr>
      in after_loop ms eid
           (case triggers (configuration workflow) of
              Some ts \<Rightarrow>
                if length ts > 0 then run_triggers rt ms eid ts context st0 w
                else Continue context st0 w
            | None \<Rightarrow> Continue context st0 w)
           (\<lambda>context1 st1 w1.
              after_loop ms eid
                (case actions (configuration workflow) of
                   Some as \<Rightarrow>
                     if length as > 0 then run_actions rt ms hs eid 0 as context1 st1 w1
                     else Continue context1 st1 w1
                 | None \<Rightarrow> Continue context1 st1 w1)
                (complete_run ms eid)))"

section \<open>Notions used in the statements\<close>

text \<open>The trigger types \<^verbatim>\<open>validateTrigger\<close> accepts, and the action types
  \<^verbatim>\<open>executeAction\<close> has no handler for.\<close>

definition valid_trigger_types :: "string set" where
  "valid_trigger_types = {''webhook'', ''manual'', ''email'', ''schedule''}"

definition unknown_action_types :: "string set" where
  "unknown_action_types = - {''email'', ''webhook'', ''database'', ''sms'', ''notification'', ''delay''}"

text \<open>The store right after \<^verbatim>\<open>prisma.execution.create\<close>, and the context the run
  starts with.\<close>

definition created_store :: "store \<Rightarrow> Workflow \<Rightarrow> jsval \<Rightarrow> store" where
  "created_store st workflow tdata0 =
     snd (execution_create st (workflow_id workflow) (if tdata0 = JUndefined then JObj [] else tdata0))"

definition seeded_context :: "Workflow \<Rightarrow> jsval \<Rightarrow> WorkflowContext" where
  "seeded_context workflow tdata0 =
     (let tdata = (if tdata0 = JUndefined then JObj [] else tdata0)
      in \<lparr>workflowId = workflow_id workflow, userId = workflow_userId workflow,
          triggerData = tdata, variables = [(''trigger'', tdata)], stepResults = []\<rparr>)"

text \<open>The notification that \<^verbatim>\<open>updateExecutionStatus\<close> creates for a failed execution,
  and the store after a terminal update of the execution \<open>eid\<close>.\<close>

definition failure_notification :: "store \<Rightarrow> nat \<Rightarrow> string option \<Rightarrow> Notification" where
  "failure_notification st eid err =
     \<lparr>notif_userId = workflow_userId (workflows st (exec_workflowId (executions st ! eid))),
      notif_type = ''workflow_error'',
      message = ''Workflow '' @ [CHR 0x22] @
                workflow_name (workflows st (exec_workflowId (executions st ! eid))) @ [CHR 0x22] @
                '' failed: '' @ null_string err,
      metadata_workflowId = exec_workflowId (executions st ! eid),
      metadata_executionId = Some eid, metadata_context = None\<rparr>"

definition terminal_store :: "store \<Rightarrow> nat \<Rightarrow> string \<Rightarrow> string option \<Rightarrow> jsval option \<Rightarrow> store" where
  "terminal_store st eid s err out =
     st\<lparr>executions := (executions st)[eid := (executions st ! eid)\<lparr>status := s,
            endTime := Some (clock st), exec_error := err, exec_output := out\<rparr>],
        notifications := notifications st @ (if s = ''failed'' then [failure_notification st eid err] else []),
        writes := writes st @ ExecutionUpdate eid s #
                  (if s = ''failed'' then [NotificationCreate (failure_notification st eid err)] else [])\<rparr>"

text \<open>
  The handlers of a dispatcher, and the properties of the database that every one of
  them preserves, whatever the config, the context and the world it runs in.
\<close>

definition handler_set :: "'w handlers \<Rightarrow> 'w handler set" where
  "handler_set hs =
     {executeEmailAction hs, executeWebhookAction hs, executeDatabaseAction hs,
      executeSMSAction hs, executeNotificationAction hs, executeDelayAction hs}"

definition preserves :: "'w handlers \<Rightarrow> (database \<Rightarrow> bool) \<Rightarrow> bool" where
  "preserves hs P =
     (\<forall>h \<in> handler_set hs. \<forall>config context db w.
        P db \<longrightarrow> P (fst (snd (h config context db w))))"

text \<open>
  The invariant of the loops, for a property \<open>P\<close> of the database that the handlers
  preserve and the journal \<open>W\<close> of the engine after the create: while a loop goes on, or
  when it raises, the database has the property and the journal is \<open>W\<close>; a loop that
  returns early has made the one terminal write, with status \<^verbatim>\<open>failed\<close>, on such a
  store. A run ends with the terminal write of exactly one of the two terminal states
  on such a store, or, when the execution is no longer in the database, with a fault
  and no write.
\<close>

definition failed_return ::
  "(database \<Rightarrow> bool) \<Rightarrow> store_write list \<Rightarrow> nat \<Rightarrow> 'w flow \<Rightarrow> bool" where
  "failed_return P W eid f =
     (case f of
        Continue c st w \<Rightarrow> P (tables st) \<and> writes st = W
      | Raise e st w c \<Rightarrow> P (tables st) \<and> writes st = W
      | Return r st1 w c \<Rightarrow>
          (\<exists>e e' st. P (tables st) \<and> writes st = W \<and> eid < length (executions st) \<and>
                  r = \<lparr>success = False, data = JUndefined, error = Some e, executionId = eid\<rparr> \<and>
                  st1 = terminal_store st eid ''failed'' (Some e') None))"

definition terminal_run ::
  "(database \<Rightarrow> bool) \<Rightarrow> store_write list \<Rightarrow> nat \<Rightarrow> 'w run \<Rightarrow> bool" where
  "terminal_run P W eid r =
     (\<exists>st. P (tables st) \<and> writes st = W \<and>
        (if eid < length (executions st) then
           (\<exists>e e'. returned r = Returned \<lparr>success = False, data = JUndefined, error = Some e,
                                            executionId = eid\<rparr> \<and>
                   run_store r = terminal_store st eid ''failed'' (Some e') None) \<or>
           (returned r = Returned \<lparr>success = True, data = JObj (stepResults (run_context r)),
                                    error = None, executionId = eid\<rparr> \<and>
            run_store r = terminal_store st eid ''completed'' None
                            (Some (JObj (stepResults (run_context r)))))
         else (\<exists>e. returned r = Threw e) \<and> run_store r = st))"

text \<open>The keys of the step results and of the variables, the types of a list of
  triggers, and the context a loop ends with.\<close>

definition action_key :: "nat \<Rightarrow> string" where
  "action_key i = ''action_'' @ decimal i"

definition result_key :: "nat \<Rightarrow> string" where
  "result_key i = ''action_'' @ decimal i @ ''_result''"

definition trigger_key :: "string \<Rightarrow> string" where
  "trigger_key t = ''trigger_'' @ t"

definition keys_of :: "(string \<times> jsval) list \<Rightarrow> string set" where
  "keys_of kvs = fst ` set kvs"

definition trigger_types :: "jsval list \<Rightarrow> string set" where
  "trigger_types ts = {t. \<exists>p \<in> set ts. read_prop p ''type'' = JStr t}"

fun flow_context :: "'w flow \<Rightarrow> WorkflowContext" where
  "flow_context (Continue c st w) = c"
| "flow_context (Return r st w c) = c"
| "flow_context (Raise e st w c) = c"

text \<open>
  \<open>grows c c'\<close>: every entry of the step results and of the variables of \<open>c\<close> is an
  entry of \<open>c'\<close>, with the same value. \<open>fresh_from i c\<close>: the context has no entry
  yet for the actions from index \<open>i\<close> on. \<open>trigger_entries c\<close>: an entry under a
  trigger key holds the trigger data.
\<close>

definition grows :: "WorkflowContext \<Rightarrow> WorkflowContext \<Rightarrow> bool" where
  "grows c c' =
     (map_of (stepResults c) \<subseteq>\<^sub>m map_of (stepResults c') \<and>
      map_of (variables c) \<subseteq>\<^sub>m map_of (variables c'))"

definition fresh_from :: "nat \<Rightarrow> WorkflowContext \<Rightarrow> bool" where
  "fresh_from i c =
     (\<forall>j \<ge> i. action_key j \<notin> keys_of (stepResults c) \<and> result_key j \<notin> keys_of (variables c))"

definition trigger_entries :: "WorkflowContext \<Rightarrow> bool" where
  "trigger_entries c =
     (\<forall>t v. map_of (stepResults c) (trigger_key t) = Some v \<longrightarrow> v = triggerData c)"

text \<open>The triggers and the actions of a workflow, a missing list being empty.\<close>

definition trigger_list :: "Workflow \<Rightarrow> jsval list" where
  "trigger_list workflow = (case triggers (configuration workflow) of Some ts \<Rightarrow> ts | None \<Rightarrow> [])"

definition action_list :: "Workflow \<Rightarrow> jsval list" where
  "action_list workflow = (case actions (configuration workflow) of Some as \<Rightarrow> as | None \<Rightarrow> [])"






text \<open>
  The entries of an object as \<^verbatim>\<open>Object.entries\<close> lists them: no key twice, and an
  array index is listed before every other key and after the smaller indices only.
  \<open>plain_json v\<close>: every object inside \<open>v\<close> has such entries and no own key
  \<^verbatim>\<open>__proto__\<close>.
\<close>

definition key_before :: "string \<Rightarrow> string \<Rightarrow> bool" where
  "key_before a b = (is_index b \<longrightarrow> is_index a \<and> parseInt a < parseInt b)"

definition own_entries :: "(string \<times> jsval) list \<Rightarrow> bool" where
  "own_entries kvs = (distinct (map fst kvs) \<and> sorted_wrt key_before (map fst kvs))"

fun plain_json :: "jsval \<Rightarrow> bool" where
  "plain_json (JArr xs) = (\<forall>x \<in> set xs. plain_json x)"
| "plain_json (JObj kvs) =
     (own_entries kvs \<and> ''__proto__'' \<notin> fst ` set kvs \<and> (\<forall>v \<in> snd ` set kvs. plain_json v))"
| "plain_json (JProto p kvs) = False"
| "plain_json v = True"

text \<open>A runtime whose prototypes have no properties at all.\<close>

definition bare :: "runtime \<Rightarrow> bool" where
  "bare rt = (\<forall>v k. proto_get rt v k = Val JUndefined)"

section \<open>A concrete runtime\<close>

text \<open>
  A fragment of the built-in objects of ECMAScript, enough to run the resolver on
  concrete inputs. It has the properties that every value inherits from
  \<^verbatim>\<open>Object.prototype\<close>: \<^verbatim>\<open>constructor\<close>, \<^verbatim>\<open>__proto__\<close> and the ten methods; the
  constructors \<^verbatim>\<open>Object\<close>, \<^verbatim>\<open>Array\<close>, \<^verbatim>\<open>String\<close>, \<^verbatim>\<open>Number\<close>, \<^verbatim>\<open>Boolean\<close> and
  \<^verbatim>\<open>Function\<close> with their prototypes; and of every built-in function its \<^verbatim>\<open>name\<close>,
  its \<^verbatim>\<open>length\<close> and what it inherits from \<^verbatim>\<open>Object.prototype\<close>. A built-in function
  is named by \<open>Host\<close> with its name, a prototype with the name of its constructor and
  \<^verbatim>\<open>.prototype\<close>. The string form of a built-in function \<^verbatim>\<open>f\<close> is
  \<^verbatim>\<open>function f() { [native code] }\<close>. The other properties of the built-in objects are
  not part of the fragment (the methods that arrays, strings, numbers and functions
  have of their own, the static methods of the constructors), and neither is
  \<^verbatim>\<open>Array.prototype.join\<close> on an object whose \<^verbatim>\<open>length\<close> or elements are entries of
  the object itself.
\<close>

definition constructor_name :: "jsval \<Rightarrow> string" where
  "constructor_name v =
     (case v of JObj _ \<Rightarrow> ''Object'' | JArr _ \<Rightarrow> ''Array'' | JStr _ \<Rightarrow> ''String''
      | JNum _ \<Rightarrow> ''Number'' | JBool _ \<Rightarrow> ''Boolean'' | _ \<Rightarrow> [])"

definition object_methods :: "string list" where
  "object_methods =
     [''hasOwnProperty'', ''isPrototypeOf'', ''propertyIsEnumerable'', ''toLocaleString'',
      ''toString'', ''valueOf'', ''__defineGetter__'', ''__defineSetter__'',
      ''__lookupGetter__'', ''__lookupSetter__'']"

definition constructors :: "string list" where
  "constructors = [''Object'', ''Array'', ''String'', ''Number'', ''Boolean'', ''Function'']"

definition prototypes :: "string list" where
  "prototypes = map (\<lambda>c. c @ ''.prototype'') constructors"

text \<open>The \<^verbatim>\<open>length\<close> of a built-in function; \<^verbatim>\<open>toString\<close> of a number is a function
  of its own, with one parameter.\<close>

definition arity :: "string \<Rightarrow> string" where
  "arity f =
     (if f \<in> {''toLocaleString'', ''toString'', ''valueOf''} then ''0''
      else if f \<in> {''__defineGetter__'', ''__defineSetter__''} then ''2''
      else ''1'')"

definition short_name :: "string \<Rightarrow> string" where
  "short_name f = (if f = ''Number.prototype.toString'' then ''toString'' else f)"

definition ecma_proto_get :: "jsval \<Rightarrow> string \<Rightarrow> looked" where
  "ecma_proto_get v k =
     (if k = ''constructor'' then Host (constructor_name v)
      else if k = ''__proto__'' then Host (constructor_name v @ ''.prototype'')
      else if k = ''toString'' \<and> (\<exists>n. v = JNum n) then Host ''Number.prototype.toString''
      else if k \<in> set object_methods then Host k
      else Val JUndefined)"

definition ecma_host_get :: "string \<Rightarrow> string \<Rightarrow> looked" where
  "ecma_host_get h k =
     (if h \<in> set prototypes \<and> h \<noteq> ''Function.prototype'' then
        (if k = ''constructor'' then Host (take (length h - 10) h)
         else if k = ''__proto__'' then
           (if h = ''Object.prototype'' then Val JNull else Host ''Object.prototype'')
         else if k = ''toString'' \<and> h = ''Number.prototype'' then Host ''Number.prototype.toString''
         else if k \<in> set object_methods then Host k
         else if k = ''length'' \<and> h \<in> {''Array.prototype'', ''String.prototype''} then Val (JNum ''0'')
         else Val JUndefined)
      else
        (if k = ''name'' then
           Val (JStr (if h = ''Function.prototype'' then [] else short_name h))
         else if k = ''length'' then Val (JNum (if h = ''Function.prototype'' then ''0'' else arity h))
         else if k = ''prototype'' \<and> h \<in> set constructors then Host (h @ ''.prototype'')
         else if k = ''constructor'' then Host ''Function''
         else if k = ''__proto__'' then
           Host (if h = ''Function.prototype'' then ''Object.prototype'' else ''Function.prototype'')
         else if k \<in> set object_methods then Host k
         else Val JUndefined))"

definition ecma_host_string :: "string \<Rightarrow> string option" where
  "ecma_host_string h =
     (if h = ''Object.prototype'' then Some ''[object Object]''
      else if h \<in> {''Array.prototype'', ''String.prototype''} then Some []
      else if h = ''Number.prototype'' then Some ''0''
      else if h = ''Boolean.prototype'' then Some ''false''
      else if h = ''Function.prototype'' then Some ''function () { [native code] }''
      else Some (''function '' @ short_name h @ ''() { [native code] }''))"

text \<open>
  \<^verbatim>\<open>Array.prototype.join\<close> on an object that inherits from the array \<open>xs\<close> and has no
  entry \<^verbatim>\<open>join\<close>, \<^verbatim>\<open>length\<close> or index of its own: the elements are those of \<open>xs\<close>.
  With an entry \<^verbatim>\<open>join\<close> (never callable) the conversion falls back to
  \<^verbatim>\<open>Object.prototype.toString\<close>.
\<close>

definition ecma :: runtime where
  "ecma =
     \<lparr>proto_get = ecma_proto_get,
      host_get = ecma_host_get,
      host_is_array = (\<lambda>h. h = ''Array.prototype''),
      host_string = ecma_host_string,
      array_like_string = (\<lambda>v.
        if data_get v ''join'' \<noteq> None then Some ''[object Object]''
        else to_string \<lparr>proto_get = ecma_proto_get, host_get = ecma_host_get,
                        host_is_array = (\<lambda>h. h = ''Array.prototype''),
                        host_string = ecma_host_string,
                        array_like_string = (\<lambda>v. None)\<rparr> (chain_end v))\<rparr>"

text \<open>The messages of V8 and of Prisma.\<close>

definition v8 :: messages where
  "v8 =
     \<lparr>type_error_message = (\<lambda>e. case e of
          DestructureNullish v \<Rightarrow>
            ''Cannot destructure property '' @ [CHR 0x27] @ ''type'' @ [CHR 0x27] @ '' of '' @
            [CHR 0x27] @ ''action'' @ [CHR 0x27] @ '' as it is '' @
            (if v = JNull then ''null'' else ''undefined'') @ ''.''
        | ReadOfNullish v k \<Rightarrow>
            ''Cannot read properties of '' @ (if v = JNull then ''null'' else ''undefined'') @
            '' (reading '' @ [CHR 0x27] @ k @ [CHR 0x27] @ '')''
        | NoPrimitive \<Rightarrow> ''Cannot convert object to primitive value''),
      record_not_found = ''Record to update not found.''\<rparr>"

text \<open>Handlers for the examples: every handler succeeds with the config it was given,
  leaves the database as it is, and counts the call in the world, a natural number.\<close>

definition counting :: "nat handler" where
  "counting config context db w = (Returned (Succeeded config), db, Suc w)"

definition counting_handlers :: "nat handlers" where
  "counting_handlers =
     \<lparr>executeEmailAction = counting, executeWebhookAction = counting,
      executeDatabaseAction = counting, executeSMSAction = counting,
      executeNotificationAction = counting, executeDelayAction = counting\<rparr>"

text \<open>
  A notification handler that creates a \<^verbatim>\<open>workflow_success\<close> notification for the user
  of the context, with the message of the config when that is a non-empty string, and
  a database handler that deletes every execution (as an update of a workflow with a
  nested \<^verbatim>\<open>deleteMany\<close> does to the executions of that workflow).
\<close>

definition notifying :: "nat handler" where
  "notifying config context db w =
     (Returned (Succeeded (JObj [(''message'', JStr ''Notification sent'')])),
      db\<lparr>notifications := notifications db @
           [\<lparr>notif_userId = userId context, notif_type = ''workflow_success'',
             message = (case read_prop config ''message'' of
                          JStr m \<Rightarrow> if m = [] then ''Workflow completed successfully'' else m
                        | _ \<Rightarrow> ''Workflow completed successfully''),
             metadata_workflowId = workflowId context, metadata_executionId = None,
             metadata_context = Some (stepResults context)\<rparr>]\<rparr>,
      Suc w)"

definition purging :: "nat handler" where
  "purging config context db w = (Returned (Succeeded JNull), db\<lparr>executions := []\<rparr>, Suc w)"

definition writing_handlers :: "nat handlers" where
  "writing_handlers =
     \<lparr>executeEmailAction = counting, executeWebhookAction = counting,
      executeDatabaseAction = purging, executeSMSAction = counting,
      executeNotificationAction = notifying, executeDelayAction = counting\<rparr>"

definition empty_store :: store where
  "empty_store =
     \<lparr>workflows = (\<lambda>wid. \<lparr>workflow_id = wid, workflow_userId = ''user_1'', workflow_name = ''Orders'',
                           configuration = \<lparr>triggers = None, actions = None\<rparr>\<rparr>),
      executions = [], notifications = [], clock = 0, writes = []\<rparr>"

text \<open>A workflow with a webhook trigger and one action of a type that has no handler.\<close>

definition fax_workflow :: Workflow where
  "fax_workflow =
     \<lparr>workflow_id = ''wf_1'', workflow_userId = ''user_1'', workflow_name = ''Orders'',
      configuration = \<lparr>triggers = Some [JObj [(''type'', JStr ''webhook'')]],
                       actions = Some [JObj [(''type'', JStr ''fax''), (''config'', JObj [])]]\<rparr>\<rparr>"


text \<open>A workflow with a webhook trigger and one delay action whose duration is taken
  from the trigger data.\<close>

definition delay_workflow :: Workflow where
  "delay_workflow =
     \<lparr>workflow_id = ''wf_2'', workflow_userId = ''user_1'', workflow_name = ''Reminders'',
      configuration =
        \<lparr>triggers = Some [JObj [(''type'', JStr ''webhook'')]],
         actions = Some [JObj [(''type'', JStr ''delay''),
                               (''config'', JObj [(''duration'', JStr ''{{triggerData.ms}}'')])]]\<rparr>\<rparr>"

text \<open>A workflow whose second trigger has an unknown type, and one without triggers and
  actions.\<close>

definition pigeon_workflow :: Workflow where
  "pigeon_workflow =
     \<lparr>workflow_id = ''wf_3'', workflow_userId = ''user_1'', workflow_name = ''Post'',
      configuration =
        \<lparr>triggers = Some [JObj [(''type'', JStr ''webhook'')],
                          JObj [(''type'', JStr ''carrier_pigeon'')]],
         actions = Some [JObj [(''type'', JStr ''delay''), (''config'', JObj [])]]\<rparr>\<rparr>"

definition idle_workflow :: Workflow where
  "idle_workflow =
     \<lparr>workflow_id = ''wf_4'', workflow_userId = ''user_1'', workflow_name = ''Idle'',
      configuration = \<lparr>triggers = Some [], actions = None\<rparr>\<rparr>"

text \<open>A workflow whose second action of three has a type without a handler.\<close>

definition chain_workflow :: Workflow where
  "chain_workflow =
     \<lparr>workflow_id = ''wf_5'', workflow_userId = ''user_1'', workflow_name = ''Chain'',
      configuration =
        \<lparr>triggers = Some [JObj [(''type'', JStr ''webhook'')]],
         actions = Some [JObj [(''type'', JStr ''delay''),
                               (''config'', JObj [(''duration'', JStr ''{{triggerData.ms}}'')])],
                         JObj [(''type'', JStr ''fax''), (''config'', JObj [])],
                         JObj [(''type'', JStr ''delay''), (''config'', JObj [])]]\<rparr>\<rparr>"

text \<open>A workflow that notifies its user and one that empties the executions.\<close>

definition notify_workflow :: Workflow where
  "notify_workflow =
     \<lparr>workflow_id = ''wf_6'', workflow_userId = ''user_1'', workflow_name = ''Notify'',
      configuration =
        \<lparr>triggers = Some [JObj [(''type'', JStr ''manual'')]],
         actions = Some [JObj [(''type'', JStr ''notification''),
                               (''config'', JObj [(''message'', JStr ''Done'')])]]\<rparr>\<rparr>"

definition purge_workflow :: Workflow where
  "purge_workflow =
     \<lparr>workflow_id = ''wf_7'', workflow_userId = ''user_1'', workflow_name = ''Purge'',
      configuration =
        \<lparr>triggers = Some [JObj [(''type'', JStr ''manual'')]],
         actions = Some [JObj [(''type'', JStr ''database''), (''config'', JObj [])]]\<rparr>\<rparr>"

text \<open>A context of a run, for the dispatcher examples.\<close>

definition mail_run :: WorkflowContext where
  "mail_run =
     \<lparr>workflowId = ''wf_1'', userId = ''user_1'', triggerData = JNull,
      variables = [(''trigger'', JNull)], stepResults = []\<rparr>"


section \<open>Properties of the engine\<close>

lemma tables_with_tables [simp]: "tables (with_tables st db) = db"
  by (simp add: tables_def with_tables_def)

lemma writes_with_tables [simp]: "writes (with_tables st db) = writes st"
  by (simp add: with_tables_def)

lemma tables_simps [simp]:
  "workflows (tables st) = workflows st" "executions (tables st) = executions st"
  "notifications (tables st) = notifications st" "clock (tables st) = clock st"
  by (simp_all add: tables_def)

lemma with_tables_simps [simp]:
  "workflows (with_tables st db) = workflows db" "executions (with_tables st db) = executions db"
  "notifications (with_tables st db) = notifications db" "clock (with_tables st db) = clock db"
  by (simp_all add: with_tables_def)

lemma updateExecutionStatus_existing:
  assumes "eid < length (executions st)"
  shows "updateExecutionStatus ms st eid s err out = Returned (terminal_store st eid s err out)"
  using assms
  by (simp add: updateExecutionStatus_def execution_update_def execution_findUnique_def
      notification_create_def terminal_store_def failure_notification_def)

lemma updateExecutionStatus_missing:
  assumes "\<not> eid < length (executions st)"
  shows "updateExecutionStatus ms st eid s err out = Threw (ErrorObj (record_not_found ms))"
  using assms by (simp add: updateExecutionStatus_def execution_update_def)

lemma validateTrigger_cases:
  assumes "validateTrigger rt ms trigger c = Returned r"
  shows "(r = \<lparr>success = True, data = triggerData c, error = None\<rparr> \<and>
            (\<exists>t \<in> valid_trigger_types. read_prop trigger ''type'' = JStr t)) \<or>
         (\<exists>s. r = \<lparr>success = False, data = JUndefined, error = Some (''Unknown trigger type: '' @ s)\<rparr> \<and>
              to_string rt (read_prop trigger ''type'') = Some s)"
  using assms
  by (auto simp: validateTrigger_def Let_def valid_trigger_types_def split: if_splits option.splits)

lemma executeAction_unknown:
  assumes "read_prop action ''type'' = JStr t"
    and "t \<notin> {''email'', ''webhook'', ''database'', ''sms'', ''notification'', ''delay''}"
  shows "executeAction rt ms hs action context st w =
           (Returned \<lparr>success = False, data = JUndefined,
                      error = Some (''Unknown action type: '' @ t)\<rparr>, st, w)"
proof -
  from assms(1) have "action \<noteq> JNull" "action \<noteq> JUndefined"
    by (auto simp: read_prop_def)
  with assms show ?thesis
    by (simp add: executeAction_def Let_def)
qed

lemma handler_result_cases:
  assumes "handler_result st x = (o1, st1, w1)"
  shows "st1 = with_tables st (fst (snd x)) \<and>
         (\<forall>r. o1 = Returned r \<longrightarrow> \<not> success r \<longrightarrow>
            (\<exists>e. r = \<lparr>success = False, data = data r, error = Some e\<rparr>))"
proof -
  obtain o2 db w2 where x: "x = (o2, db, w2)" by (cases x)
  show ?thesis
  proof (cases o2)
    case (Threw e)
    with assms x show ?thesis by auto
  next
    case (Returned y)
    with assms x show ?thesis by (cases y) auto
  qed
qed

lemma executeAction_failure_error:
  assumes "executeAction rt ms hs a c st w = (Returned r, st1, w1)" and "\<not> success r"
  shows "\<exists>e. r = \<lparr>success = False, data = data r, error = Some e\<rparr>"
  using assms
  by (auto simp: executeAction_def Let_def split: if_splits option.splits
      dest!: handler_result_cases)

lemma executeAction_store:
  assumes "executeAction rt ms hs a c st w = (o1, st1, w1)"
  shows "st1 = st \<or>
         (\<exists>h \<in> handler_set hs. \<exists>config. st1 = with_tables st (fst (snd (h config c (tables st) w))))"
  using assms
  by (auto simp: executeAction_def Let_def handler_set_def split: if_splits option.splits
      dest!: handler_result_cases)

lemma executeAction_preserves:
  assumes "preserves hs P" and "P (tables st)"
    and "executeAction rt ms hs a c st w = (o1, st1, w1)"
  shows "P (tables st1) \<and> writes st1 = writes st"
proof -
  from executeAction_store[OF assms(3)] show ?thesis
  proof
    assume "st1 = st"
    with assms(2) show ?thesis by simp
  next
    assume "\<exists>h \<in> handler_set hs. \<exists>config.
      st1 = with_tables st (fst (snd (h config c (tables st) w)))"
    then obtain h config where "h \<in> handler_set hs"
      "st1 = with_tables st (fst (snd (h config c (tables st) w)))" by blast
    with assms(1,2) show ?thesis
      by (auto simp: preserves_def)
  qed
qed

lemma failed_return_Return:
  assumes "P (tables st)" and "writes st = W" and "eid < length (executions st)"
  shows "failed_return P W eid
           (Return \<lparr>success = False, data = JUndefined, error = Some e, executionId = eid\<rparr>
              (terminal_store st eid ''failed'' (Some e') None) w c)"
  using assms by (auto simp: failed_return_def)

lemma inner_catch_flow:
  assumes "P (tables st)" and "writes st = W"
  shows "failed_return P W eid (inner_catch ms eid i e c st w)"
proof (cases "eid < length (executions st)")
  case True
  with assms show ?thesis
    by (simp add: inner_catch_def Let_def failed_return_Return updateExecutionStatus_existing)
next
  case False
  with assms show ?thesis
    by (simp add: inner_catch_def Let_def failed_return_def updateExecutionStatus_missing)
qed

lemma run_triggers_flow:
  assumes "P (tables st)" and "writes st = W"
  shows "failed_return P W eid (run_triggers rt ms eid ts c st w)"
  using assms
proof (induction ts arbitrary: c)
  case Nil
  then show ?case by (simp add: failed_return_def)
next
  case (Cons t' ts)
  show ?case
  proof (cases "validateTrigger rt ms t' c")
    case (Threw e)
    with Cons.prems show ?thesis by (simp add: failed_return_def)
  next
    case (Returned r)
    show ?thesis
    proof (cases "success r")
      case True
      with validateTrigger_cases[OF Returned] obtain t where "read_prop t' ''type'' = JStr t"
        by auto
      with Returned True Cons.IH[OF Cons.prems] show ?thesis
        by simp
    next
      case False
      with validateTrigger_cases[OF Returned] obtain s where er: "error r = Some s"
        by auto
      show ?thesis
      proof (cases "eid < length (executions st)")
        case True
        with Returned False er Cons.prems show ?thesis
          by (simp add: failed_return_Return updateExecutionStatus_existing)
      next
        case nx: False
        with Returned False Cons.prems show ?thesis
          by (simp add: failed_return_def updateExecutionStatus_missing)
      qed
    qed
  qed
qed

lemma run_actions_flow:
  assumes "preserves hs P" and "P (tables st)" and "writes st = W"
  shows "failed_return P W eid (run_actions rt ms hs eid i as c st w)"
  using assms(2,3)
proof (induction as arbitrary: i c st w)
  case Nil
  then show ?case by (simp add: failed_return_def)
next
  case (Cons a as)
  obtain o1 st1 w1 where
    ex: "executeAction rt ms hs (substituteVariables rt a (context_value c)) c st w = (o1, st1, w1)"
    by (cases "executeAction rt ms hs (substituteVariables rt a (context_value c)) c st w")
  from executeAction_preserves[OF assms(1) Cons.prems(1) ex] Cons.prems(2)
  have st1: "P (tables st1)" "writes st1 = W" by simp_all
  show ?case
  proof (cases o1)
    case (Threw e)
    with ex st1 show ?thesis
      by (simp add: inner_catch_flow)
  next
    case (Returned r)
    show ?thesis
    proof (cases "success r")
      case True
      with ex Returned Cons.IH[OF st1] show ?thesis by simp
    next
      case False
      from executeAction_failure_error[OF ex[unfolded Returned] False]
      obtain e where "r = \<lparr>success = False, data = data r, error = Some e\<rparr>" ..
      then have er: "error r = Some e" by (metis ActionResult.select_convs(3))
      show ?thesis
      proof (cases "eid < length (executions st1)")
        case True
        with ex Returned False er st1 show ?thesis
          by (simp add: updateExecutionStatus_existing failed_return_Return)
      next
        case nx: False
        with ex Returned False st1 show ?thesis
          by (simp add: updateExecutionStatus_missing inner_catch_flow)
      qed
    qed
  qed
qed

lemma outer_catch_terminal:
  assumes "P (tables st)" and "writes st = W"
  shows "terminal_run P W eid (outer_catch ms eid e st w c)"
proof (cases "eid < length (executions st)")
  case True
  with assms show ?thesis
    unfolding terminal_run_def
    by (intro exI[of _ st])
      (auto simp: outer_catch_def Let_def updateExecutionStatus_existing)
next
  case False
  with assms show ?thesis
    unfolding terminal_run_def
    by (intro exI[of _ st])
      (auto simp: outer_catch_def Let_def updateExecutionStatus_missing)
qed

lemma complete_run_existing:
  assumes "eid < length (executions st)"
  shows "complete_run ms eid c st w =
           \<lparr>returned = Returned \<lparr>success = True, data = JObj (stepResults c), error = None,
                                 executionId = eid\<rparr>,
            run_store = terminal_store st eid ''completed'' None (Some (JObj (stepResults c))),
            run_world = w, run_context = c\<rparr>"
  using assms by (simp add: complete_run_def updateExecutionStatus_existing)

lemma complete_run_terminal:
  assumes "P (tables st)" and "writes st = W"
  shows "terminal_run P W eid (complete_run ms eid c st w)"
proof (cases "eid < length (executions st)")
  case True
  with assms show ?thesis
    unfolding terminal_run_def
    by (intro exI[of _ st]) (simp add: complete_run_existing)
next
  case False
  then have "complete_run ms eid c st w = outer_catch ms eid (ErrorObj (record_not_found ms)) st w c"
    by (simp add: complete_run_def updateExecutionStatus_missing)
  with assms show ?thesis
    by (simp add: outer_catch_terminal)
qed

lemma after_loop_terminal:
  assumes "failed_return P W eid f"
    and "\<And>c st w. P (tables st) \<Longrightarrow> writes st = W \<Longrightarrow> terminal_run P W eid (k c st w)"
  shows "terminal_run P W eid (after_loop ms eid f k)"
proof (cases f)
  case (Continue c st w)
  with assms show ?thesis by (simp add: failed_return_def)
next
  case (Return r st1 w c)
  with assms(1) obtain e e' st where
    "P (tables st)" "writes st = W" "eid < length (executions st)"
    "r = \<lparr>success = False, data = JUndefined, error = Some e, executionId = eid\<rparr>"
    "st1 = terminal_store st eid ''failed'' (Some e') None"
    by (auto simp: failed_return_def)
  with Return show ?thesis
    unfolding terminal_run_def by (intro exI[of _ st]) auto
next
  case (Raise e st w c)
  with assms(1) show ?thesis
    by (simp add: failed_return_def outer_catch_terminal)
qed

lemma created_store_length: "length (executions st) < length (executions (created_store st wfl td))"
  by (simp add: created_store_def execution_create_def)

lemma created_store_simps:
  "executions (created_store st wfl td) =
     executions st @ [\<lparr>exec_workflowId = workflow_id wfl, status = ''running'',
        startTime = clock st, endTime = None,
        exec_input = (if td = JUndefined then JObj [] else td), exec_output = None,
        exec_error = None\<rparr>]"
  "workflows (created_store st wfl td) = workflows st"
  "notifications (created_store st wfl td) = notifications st"
  "writes (created_store st wfl td) = writes st @ [ExecutionCreate (length (executions st))]"
  "clock (created_store st wfl td) = clock st"
  by (simp_all add: created_store_def execution_create_def)

lemma executeWorkflow_unfold:
  "executeWorkflow rt ms hs wfl td st w =
     after_loop ms (length (executions st))
       (case triggers (configuration wfl) of
          Some ts \<Rightarrow>
            if length ts > 0
            then run_triggers rt ms (length (executions st)) ts (seeded_context wfl td)
                   (created_store st wfl td) w
            else Continue (seeded_context wfl td) (created_store st wfl td) w
        | None \<Rightarrow> Continue (seeded_context wfl td) (created_store st wfl td) w)
       (\<lambda>context1 st1 w1.
          after_loop ms (length (executions st))
            (case actions (configuration wfl) of
               Some as \<Rightarrow>
                 if length as > 0
                 then run_actions rt ms hs (length (executions st)) 0 as context1 st1 w1
                 else Continue context1 st1 w1
             | None \<Rightarrow> Continue context1 st1 w1)
            (complete_run ms (length (executions st))))"
  by (simp only: executeWorkflow_def created_store_def seeded_context_def execution_create_def
      Let_def prod.case snd_conv)

lemma executeWorkflow_loops:
  "executeWorkflow rt ms hs wfl td st w =
     after_loop ms (length (executions st))
       (run_triggers rt ms (length (executions st)) (trigger_list wfl) (seeded_context wfl td)
          (created_store st wfl td) w)
       (\<lambda>c1 st1 w1.
          after_loop ms (length (executions st))
            (run_actions rt ms hs (length (executions st)) 0 (action_list wfl) c1 st1 w1)
            (complete_run ms (length (executions st))))"
proof -
  have t: "(case triggers (configuration wfl) of
          Some ts \<Rightarrow>
            if length ts > 0
            then run_triggers rt ms (length (executions st)) ts (seeded_context wfl td)
                   (created_store st wfl td) w
            else Continue (seeded_context wfl td) (created_store st wfl td) w
        | None \<Rightarrow> Continue (seeded_context wfl td) (created_store st wfl td) w) =
      run_triggers rt ms (length (executions st)) (trigger_list wfl) (seeded_context wfl td)
          (created_store st wfl td) w"
    by (auto simp: trigger_list_def split: option.splits)
  have a: "(case actions (configuration wfl) of
               Some as \<Rightarrow>
                 if length as > 0
                 then run_actions rt ms hs (length (executions st)) 0 as c1 st1 w1
                 else Continue c1 st1 w1
             | None \<Rightarrow> Continue c1 st1 w1) =
      run_actions rt ms hs (length (executions st)) 0 (action_list wfl) c1 st1 w1"
    for c1 st1 and w1 :: 'a
    by (auto simp: action_list_def split: option.splits)
  show ?thesis
    unfolding executeWorkflow_unfold t a ..
qed

lemma executeWorkflow_terminal:
  assumes "preserves hs P" and "P (tables (created_store st wfl td))"
  shows "terminal_run P (writes st @ [ExecutionCreate (length (executions st))])
           (length (executions st)) (executeWorkflow rt ms hs wfl td st w)"
proof -
  let ?st0 = "created_store st wfl td" and ?eid = "length (executions st)"
  let ?W = "writes st @ [ExecutionCreate ?eid]"
  have w0: "writes ?st0 = ?W" by (simp add: created_store_simps)
  have acts: "terminal_run P ?W ?eid
      (after_loop ms ?eid (run_actions rt ms hs ?eid 0 (action_list wfl) c1 st1 w1)
         (complete_run ms ?eid))"
    if "P (tables st1)" "writes st1 = ?W" for c1 st1 and w1 :: 'a
    by (intro after_loop_terminal[where P = P] run_actions_flow[where P = P, OF assms(1) that]
        complete_run_terminal[where P = P])
  show ?thesis
    unfolding executeWorkflow_loops
    by (intro after_loop_terminal[where P = P] run_triggers_flow[where P = P, OF assms(2) w0]
        acts)
qed

lemma terminal_store_row:
  assumes "eid < length (executions st)"
  shows "executions (terminal_store st eid s err out) ! eid =
           (executions st ! eid)\<lparr>status := s, endTime := Some (clock st), exec_error := err,
                                  exec_output := out\<rparr>"
  using assms by (simp add: terminal_store_def)

lemma run_actions_failure:
  assumes "executeAction rt ms hs (substituteVariables rt a (context_value c)) c st w =
             (Returned res, st1, w1)"
    and "\<not> success res" and "eid < length (executions st1)"
  shows "run_actions rt ms hs eid i (a # rest) c st w =
           Return \<lparr>success = False, data = JUndefined,
                   error = Some (''Action '' @ decimal (i + 1) @ '' failed: '' @
                                 undefined_string (error res)),
                   executionId = eid\<rparr>
             (terminal_store st1 eid ''failed'' (error res) None) w1 c"
  using assms by (simp add: updateExecutionStatus_existing)

lemma run_actions_fault:
  assumes "executeAction rt ms hs (substituteVariables rt a (context_value c)) c st w =
             (Threw e, st1, w1)"
    and "eid < length (executions st1)"
  shows "run_actions rt ms hs eid i (a # rest) c st w =
           Return \<lparr>success = False, data = JUndefined,
                   error = Some (''Action '' @ decimal (i + 1) @ '' error: '' @
                                 (case e of ErrorObj m \<Rightarrow> m | NonError \<Rightarrow> ''Unknown error'')),
                   executionId = eid\<rparr>
             (terminal_store st1 eid ''failed''
                (Some (''Action '' @ decimal (i + 1) @ '' error: '' @
                       (case e of ErrorObj m \<Rightarrow> m | NonError \<Rightarrow> ''Unknown error''))) None) w1 c"
  using assms by (simp add: inner_catch_def Let_def updateExecutionStatus_existing)

lemmas eval_defs =
  executeWorkflow_def complete_run_def store_action_result_def store_trigger_result_def
  fax_workflow_def empty_store_def execution_create_def Let_def
  validateTrigger_def executeAction_def updateExecutionStatus_def
  execution_update_def execution_findUnique_def notification_create_def obj_set_def
  is_index_def is_digits_def is_digit_def context_value_def decimal.simps digit_char_def
  undefined_string_def null_string_def substituteInString_def match_at_def
  getNestedValue_def trim_def is_space_def looked_string_def ecma_def constructor_name_def
  counting_handlers_def counting_def v8_def tables_def with_tables_def inner_catch_def
  outer_catch_def read_prop_def obj_write_def make_object_def inherits_setter_def
  settable_proto_def ecma_proto_get_def ecma_host_get_def ecma_host_string_def
  object_methods_def constructors_def prototypes_def arity_def short_name_def

lemma read_prop_JStr_not_nullish:
  assumes "read_prop v k = JStr t"
  shows "v \<noteq> JNull" "v \<noteq> JUndefined"
  using assms by (auto simp: read_prop_def)

lemma validateTrigger_valid:
  assumes "read_prop trigger ''type'' = JStr t" and "t \<in> valid_trigger_types"
  shows "validateTrigger rt ms trigger c = Returned \<lparr>success = True, data = triggerData c, error = None\<rparr>"
  using assms read_prop_JStr_not_nullish[OF assms(1)]
  by (auto simp: validateTrigger_def Let_def valid_trigger_types_def)

lemma validateTrigger_unknown:
  assumes "read_prop trigger ''type'' = JStr t" and "t \<notin> valid_trigger_types"
  shows "validateTrigger rt ms trigger c =
           Returned \<lparr>success = False, data = JUndefined,
                     error = Some (''Unknown trigger type: '' @ t)\<rparr>"
  using assms read_prop_JStr_not_nullish[OF assms(1)]
  by (simp add: validateTrigger_def Let_def valid_trigger_types_def)

lemma run_triggers_valid_prefix:
  assumes "\<forall>p \<in> set pre. \<exists>u \<in> valid_trigger_types. read_prop p ''type'' = JStr u"
  shows "\<exists>c'. triggerData c' = triggerData c \<and> variables c' = variables c \<and>
              run_triggers rt ms eid (pre @ rest) c st w = run_triggers rt ms eid rest c' st w"
  using assms
proof (induction pre arbitrary: c)
  case Nil
  then show ?case by auto
next
  case (Cons p pre)
  then obtain u where u: "u \<in> valid_trigger_types" "read_prop p ''type'' = JStr u"
    by auto
  let ?c = "store_trigger_result u (triggerData c) c"
  from Cons obtain c' where "triggerData c' = triggerData ?c" "variables c' = variables ?c"
    "run_triggers rt ms eid (pre @ rest) ?c st w = run_triggers rt ms eid rest c' st w"
    by (metis list.set_intros(2))
  with u show ?case
    by (auto simp: validateTrigger_valid store_trigger_result_def intro!: exI[of _ c'])
qed

lemma parseInt_snoc: "parseInt (xs @ [c]) = 10 * parseInt xs + ((of_char c :: nat) - 48)"
  by (simp add: parseInt_def)

lemma digit_value: "n < 10 \<Longrightarrow> (of_char (digit_char n) :: nat) - 48 = n"
  by (auto simp: eval_nat_numeral less_Suc_eq digit_char_def)

lemma parseInt_decimal: "parseInt (decimal n) = n"
proof (induction n rule: decimal.induct)
  case (1 n)
  show ?case
  proof (cases "n < 10")
    case True
    then show ?thesis
      using digit_value[of n] by (subst decimal.simps) (simp add: parseInt_def)
  next
    case False
    with 1 have "parseInt (decimal (n div 10)) = n div 10" by simp
    with False show ?thesis
      using digit_value[of "n mod 10"]
      by (subst decimal.simps) (simp add: parseInt_snoc)
  qed
qed

lemma decimal_inj: "decimal i = decimal j \<Longrightarrow> i = j"
  by (metis parseInt_decimal)

lemma map_of_insert_index:
  "k \<notin> fst ` set kvs \<Longrightarrow> map_of (insert_index k v kvs) = (map_of kvs)(k \<mapsto> v)"
  by (induction kvs) (auto simp: fun_upd_twist)

lemma keys_insert_index: "fst ` set (insert_index k v kvs) = insert k (fst ` set kvs)"
proof (induction kvs)
  case Nil
  show ?case by simp
next
  case (Cons a kvs)
  then show ?case
    by (cases a) (simp add: insert_commute)
qed

lemma map_of_replace:
  "map_of (map (\<lambda>(k', v'). if k' = k then (k', v) else (k', v')) kvs) =
     (if k \<in> fst ` set kvs then (map_of kvs)(k \<mapsto> v) else map_of kvs)"
  by (induction kvs) (auto simp: fun_upd_twist)

lemma map_of_obj_set: "map_of (obj_set kvs k v) = (map_of kvs)(k \<mapsto> v)"
proof (cases "k \<in> fst ` set kvs")
  case True
  then show ?thesis
    by (simp add: obj_set_def map_of_replace)
next
  case False
  then have none: "map_of kvs k = None"
    by (simp add: map_of_eq_None_iff)
  have "map_of (kvs @ [(k, v)]) = (map_of kvs)(k \<mapsto> v)"
    by (rule ext) (use none in \<open>auto simp: map_add_def split: option.splits\<close>)
  with False show ?thesis
    by (simp add: obj_set_def map_of_insert_index)
qed

lemma keys_obj_set: "fst ` set (obj_set kvs k v) = insert k (fst ` set kvs)"
proof (cases "k \<in> fst ` set kvs")
  case True
  have "fst ` set (map (\<lambda>(k', v'). if k' = k then (k', v) else (k', v')) kvs) = fst ` set kvs"
    by (induction kvs) auto
  with True show ?thesis
    by (auto simp: obj_set_def)
next
  case False
  then show ?thesis
    by (auto simp: obj_set_def keys_insert_index)
qed

lemma grows_refl: "grows c c"
  by (simp add: grows_def)

lemma grows_trans: "grows a b \<Longrightarrow> grows b c \<Longrightarrow> grows a c"
  by (auto simp: grows_def intro: map_le_trans)

lemma action_key_inj: "action_key i = action_key j \<Longrightarrow> i = j"
  by (simp add: action_key_def decimal_inj)

lemma result_key_inj: "result_key i = result_key j \<Longrightarrow> i = j"
  by (simp add: result_key_def decimal_inj)

lemma key_shapes:
  "action_key i \<noteq> trigger_key t" "trigger_key t \<noteq> action_key i"
  by (simp_all add: action_key_def trigger_key_def)

lemma store_action_result_props:
  assumes "fresh_from i c"
  shows "fresh_from (Suc i) (store_action_result i d c)"
    and "grows c (store_action_result i d c)"
    and "keys_of (stepResults (store_action_result i d c)) = insert (action_key i) (keys_of (stepResults c))"
    and "keys_of (variables (store_action_result i d c)) = insert (result_key i) (keys_of (variables c))"
    and "triggerData (store_action_result i d c) = triggerData c"
    and "trigger_entries c \<Longrightarrow> trigger_entries (store_action_result i d c)"
proof -
  from assms have nk: "action_key i \<notin> keys_of (stepResults c)" "result_key i \<notin> keys_of (variables c)"
    by (auto simp: fresh_from_def)
  then have none: "map_of (stepResults c) (action_key i) = None" "map_of (variables c) (result_key i) = None"
    by (simp_all add: keys_of_def map_of_eq_None_iff)
  have m1: "map_of (stepResults (store_action_result i d c)) = (map_of (stepResults c))(action_key i \<mapsto> d)"
    and m2: "map_of (variables (store_action_result i d c)) = (map_of (variables c))(result_key i \<mapsto> d)"
    by (simp_all add: store_action_result_def map_of_obj_set action_key_def result_key_def)
  show k1: "keys_of (stepResults (store_action_result i d c)) = insert (action_key i) (keys_of (stepResults c))"
    and k2: "keys_of (variables (store_action_result i d c)) = insert (result_key i) (keys_of (variables c))"
    by (simp_all add: store_action_result_def keys_of_def keys_obj_set action_key_def result_key_def)
  show "fresh_from (Suc i) (store_action_result i d c)"
    using assms unfolding fresh_from_def k1 k2
    by (auto dest: action_key_inj result_key_inj)
  show "grows c (store_action_result i d c)"
    unfolding grows_def m1 m2 using none
    by (auto simp: map_le_def)
  show "triggerData (store_action_result i d c) = triggerData c"
    by (simp add: store_action_result_def)
  show "trigger_entries (store_action_result i d c)" if "trigger_entries c"
    using that key_shapes(1)[of i] key_shapes(2)[of _ i] unfolding trigger_entries_def m1 \<open>triggerData (store_action_result i d c) = triggerData c\<close>
    by (auto simp: fun_upd_def split: if_splits)
qed

lemma run_actions_step:
  "run_actions rt ms hs eid i (a # rest) c st w =
     (case executeAction rt ms hs (substituteVariables rt a (context_value c)) c st w of
        (Threw e, st1, w1) \<Rightarrow> inner_catch ms eid i e c st1 w1
      | (Returned r, st1, w1) \<Rightarrow>
          if \<not> success r then
            (case updateExecutionStatus ms st1 eid ''failed'' (error r) None of
               Threw e \<Rightarrow> inner_catch ms eid i e c st1 w1
             | Returned st2 \<Rightarrow>
                 Return \<lparr>success = False, data = JUndefined,
                         error = Some (''Action '' @ decimal (i + 1) @ '' failed: '' @
                                       undefined_string (error r)),
                         executionId = eid\<rparr> st2 w1 c)
          else run_actions rt ms hs eid (i + 1) rest (store_action_result i (data r) c) st1 w1)"
  by (simp only: run_actions.simps Let_def)

lemma inner_catch_context: "flow_context (inner_catch ms eid i e c st w) = c"
  by (simp add: inner_catch_def Let_def split: outcome.splits)

lemma inner_catch_Return: "inner_catch ms eid i e c st w = Return res st1 w2 c2 \<Longrightarrow> c2 = c"
  by (metis inner_catch_context flow_context.simps(2))

lemma inner_catch_not_Continue: "inner_catch ms eid i e c st w \<noteq> Continue c' st' w'"
  by (simp add: inner_catch_def Let_def split: outcome.splits)

lemma run_actions_grows:
  assumes "fresh_from i c"
  shows "grows c (flow_context (run_actions rt ms hs eid i as c st w))"
  using assms
proof (induction as arbitrary: i c st w)
  case Nil
  show ?case by (simp add: grows_refl)
next
  case (Cons a as)
  obtain o1 st1 w1 where
    ex: "executeAction rt ms hs (substituteVariables rt a (context_value c)) c st w = (o1, st1, w1)"
    by (cases "executeAction rt ms hs (substituteVariables rt a (context_value c)) c st w")
  show ?case
  proof (cases o1)
    case (Threw e)
    with ex show ?thesis
      by (simp add: run_actions_step inner_catch_context grows_refl)
  next
    case (Returned r)
    show ?thesis
    proof (cases "success r")
      case False
      with ex Returned show ?thesis
        by (simp add: run_actions_step inner_catch_context grows_refl split: outcome.splits)
    next
      case True
      from store_action_result_props(1,2)[OF Cons.prems]
      have "fresh_from (Suc i) (store_action_result i (data r) c)" "grows c (store_action_result i (data r) c)"
        by simp_all
      with Cons.IH[of "Suc i" "store_action_result i (data r) c" st1 w1] ex Returned True
      show ?thesis
        by (auto simp: run_actions_step intro: grows_trans)
    qed
  qed
qed

lemma run_actions_Continue:
  assumes "fresh_from i c" and "run_actions rt ms hs eid i as c st w = Continue c' st' w'"
  shows "fresh_from (i + length as) c' \<and>
         keys_of (stepResults c') = keys_of (stepResults c) \<union> action_key ` {i..<i + length as} \<and>
         keys_of (variables c') = keys_of (variables c) \<union> result_key ` {i..<i + length as} \<and>
         triggerData c' = triggerData c"
  using assms
proof (induction as arbitrary: i c st w)
  case Nil
  then show ?case by simp
next
  case (Cons a as)
  obtain o1 st1 w1 where
    ex: "executeAction rt ms hs (substituteVariables rt a (context_value c)) c st w = (o1, st1, w1)"
    by (cases "executeAction rt ms hs (substituteVariables rt a (context_value c)) c st w")
  show ?case
  proof (cases o1)
    case (Threw e)
    with ex Cons.prems(2) show ?thesis
      by (simp add: run_actions_step inner_catch_not_Continue)
  next
    case (Returned r)
    show ?thesis
    proof (cases "success r")
      case False
      with ex Returned Cons.prems(2) show ?thesis
        by (simp add: run_actions_step inner_catch_not_Continue split: outcome.splits)
    next
      case True
      let ?c = "store_action_result i (data r) c"
      note p = store_action_result_props[OF Cons.prems(1), of "data r"]
      from ex Returned True Cons.prems(2)
      have "run_actions rt ms hs eid (Suc i) as ?c st1 w1 = Continue c' st' w'"
        by (simp add: run_actions_step)
      from Cons.IH[OF p(1) this]
      have "fresh_from (Suc i + length as) c'"
        "keys_of (stepResults c') = keys_of (stepResults ?c) \<union> action_key ` {Suc i..<Suc i + length as}"
        "keys_of (variables c') = keys_of (variables ?c) \<union> result_key ` {Suc i..<Suc i + length as}"
        "triggerData c' = triggerData ?c"
        by simp_all
      moreover have "{i..<i + length (a # as)} = insert i {Suc i..<Suc i + length as}"
        by auto
      ultimately show ?thesis
        using p(3,4,5) by simp
    qed
  qed
qed

lemma run_actions_append:
  assumes "run_actions rt ms hs eid i pre c st w = Continue c1 st1 w1"
  shows "run_actions rt ms hs eid i (pre @ rest) c st w =
         run_actions rt ms hs eid (i + length pre) rest c1 st1 w1"
  using assms
proof (induction pre arbitrary: i c st w)
  case Nil
  then show ?case by simp
next
  case (Cons a pre)
  obtain o1 st2 w2 where
    ex: "executeAction rt ms hs (substituteVariables rt a (context_value c)) c st w = (o1, st2, w2)"
    by (cases "executeAction rt ms hs (substituteVariables rt a (context_value c)) c st w")
  show ?case
  proof (cases o1)
    case (Threw e)
    with ex Cons.prems show ?thesis
      by (simp add: run_actions_step inner_catch_not_Continue)
  next
    case (Returned r)
    show ?thesis
    proof (cases "success r")
      case False
      with ex Returned Cons.prems show ?thesis
        by (simp add: run_actions_step inner_catch_not_Continue split: outcome.splits)
    next
      case True
      with ex Returned Cons.prems
      have "run_actions rt ms hs eid (Suc i) pre (store_action_result i (data r) c) st2 w2 =
              Continue c1 st1 w1"
        by (simp add: run_actions_step)
      from Cons.IH[OF this] ex Returned True show ?thesis
        by (simp add: run_actions_step)
    qed
  qed
qed

lemma run_actions_Return_single:
  assumes "run_actions rt ms hs eid i [a] c st w = Return res st1 w2 c2"
  shows "c2 = c \<and> run_actions rt ms hs eid i (a # post) c st w = Return res st1 w2 c2"
proof -
  obtain o1 st3 w1 where
    ex: "executeAction rt ms hs (substituteVariables rt a (context_value c)) c st w = (o1, st3, w1)"
    by (cases "executeAction rt ms hs (substituteVariables rt a (context_value c)) c st w")
  show ?thesis
  proof (cases o1)
    case (Threw e)
    with ex assms show ?thesis
      by (auto simp: run_actions_step dest: inner_catch_Return)
  next
    case (Returned r)
    show ?thesis
    proof (cases "success r")
      case False
      with ex Returned assms show ?thesis
        by (auto simp: run_actions_step split: outcome.splits dest: inner_catch_Return)
    next
      case True
      with ex Returned assms show ?thesis
        by (simp add: run_actions_step)
    qed
  qed
qed

lemma store_trigger_result_props:
  assumes "trigger_entries c"
  shows "trigger_entries (store_trigger_result t (triggerData c) c)"
    and "grows c (store_trigger_result t (triggerData c) c)"
    and "keys_of (stepResults (store_trigger_result t (triggerData c) c)) = insert (trigger_key t) (keys_of (stepResults c))"
    and "variables (store_trigger_result t (triggerData c) c) = variables c"
    and "triggerData (store_trigger_result t (triggerData c) c) = triggerData c"
    and "map_of (stepResults (store_trigger_result t (triggerData c) c)) (trigger_key t) = Some (triggerData c)"
    and "fresh_from i c \<Longrightarrow> fresh_from i (store_trigger_result t (triggerData c) c)"
proof -
  have m: "map_of (stepResults (store_trigger_result t (triggerData c) c)) =
           (map_of (stepResults c))(trigger_key t \<mapsto> triggerData c)"
    by (simp add: store_trigger_result_def map_of_obj_set trigger_key_def)
  show k: "keys_of (stepResults (store_trigger_result t (triggerData c) c)) = insert (trigger_key t) (keys_of (stepResults c))"
    by (simp add: store_trigger_result_def keys_of_def keys_obj_set trigger_key_def)
  show v: "variables (store_trigger_result t (triggerData c) c) = variables c"
    and d: "triggerData (store_trigger_result t (triggerData c) c) = triggerData c"
    by (simp_all add: store_trigger_result_def)
  show "trigger_entries (store_trigger_result t (triggerData c) c)"
    using assms unfolding trigger_entries_def m d
    by (auto simp: fun_upd_def split: if_splits)
  show "grows c (store_trigger_result t (triggerData c) c)"
    using assms unfolding grows_def m v trigger_entries_def
    by (auto simp: map_le_def)
  show "map_of (stepResults (store_trigger_result t (triggerData c) c)) (trigger_key t) = Some (triggerData c)"
    unfolding m by simp
  show "fresh_from i (store_trigger_result t (triggerData c) c)" if "fresh_from i c"
    using that key_shapes(1)[of _ t] unfolding fresh_from_def k v
    by auto
qed

lemma validateTrigger_success:
  assumes "validateTrigger rt ms trigger c = Returned r" and "success r"
  shows "\<exists>t \<in> valid_trigger_types. read_prop trigger ''type'' = JStr t \<and> data r = triggerData c"
  using validateTrigger_cases[OF assms(1)] assms(2) by auto

lemma run_triggers_step:
  "run_triggers rt ms eid (trigger # rest) c st w =
     (case validateTrigger rt ms trigger c of
        Threw e \<Rightarrow> Raise e st w c
      | Returned r \<Rightarrow>
          if \<not> success r then
            (case updateExecutionStatus ms st eid ''failed'' (error r) None of
               Threw e \<Rightarrow> Raise e st w c
             | Returned st1 \<Rightarrow>
                 Return \<lparr>success = False, data = JUndefined, error = error r, executionId = eid\<rparr>
                   st1 w c)
          else (case read_prop trigger ''type'' of
                  JStr t \<Rightarrow> run_triggers rt ms eid rest (store_trigger_result t (triggerData c) c) st w
                | _ \<Rightarrow> Raise (TypeError ms NoPrimitive) st w c))"
proof (cases "validateTrigger rt ms trigger c")
  case (Threw e)
  then show ?thesis by simp
next
  case (Returned r)
  show ?thesis
  proof (cases "success r")
    case False
    with Returned show ?thesis by simp
  next
    case True
    from validateTrigger_success[OF Returned True] Returned True show ?thesis
      by auto
  qed
qed

lemma run_triggers_grows:
  assumes "trigger_entries c"
  shows "grows c (flow_context (run_triggers rt ms eid ts c st w))"
  using assms
proof (induction ts arbitrary: c)
  case Nil
  show ?case by (simp add: grows_refl)
next
  case (Cons p ts)
  show ?case
  proof (cases "validateTrigger rt ms p c")
    case (Threw e)
    then show ?thesis by (simp add: grows_refl)
  next
    case (Returned r)
    show ?thesis
    proof (cases "success r")
      case False
      with Returned show ?thesis
        by (simp add: grows_refl split: outcome.splits)
    next
      case True
      from validateTrigger_success[OF Returned True] obtain t where
        t: "read_prop p ''type'' = JStr t" by blast
      from store_trigger_result_props(1,2)[OF Cons.prems, where t = t]
        Cons.IH[of "store_trigger_result t (triggerData c) c"] Returned True t
      show ?thesis
        by (auto simp: run_triggers_step simp del: run_triggers.simps intro: grows_trans)
    qed
  qed
qed

lemma run_triggers_Continue:
  assumes "trigger_entries c" and "run_triggers rt ms eid ts c st w = Continue c' st' w'"
  shows "trigger_entries c' \<and> (fresh_from i c \<longrightarrow> fresh_from i c') \<and>
         keys_of (stepResults c') = keys_of (stepResults c) \<union> trigger_key ` trigger_types ts \<and>
         trigger_types ts \<subseteq> valid_trigger_types \<and>
         (\<forall>t \<in> trigger_types ts. map_of (stepResults c') (trigger_key t) = Some (triggerData c)) \<and>
         variables c' = variables c \<and> triggerData c' = triggerData c \<and> st' = st \<and> w' = w"
  using assms
proof (induction ts arbitrary: c)
  case Nil
  then show ?case by (simp add: trigger_types_def)
next
  case (Cons p ts)
  show ?case
  proof (cases "validateTrigger rt ms p c")
    case (Threw e)
    with Cons.prems(2) show ?thesis by simp
  next
    case (Returned r)
    show ?thesis
    proof (cases "success r")
      case False
      with Returned Cons.prems(2) show ?thesis
        by (simp split: outcome.splits)
    next
      case True
      from validateTrigger_success[OF Returned True] obtain t where
        t: "read_prop p ''type'' = JStr t" "t \<in> valid_trigger_types" by blast
      let ?c = "store_trigger_result t (triggerData c) c"
      note p = store_trigger_result_props[OF Cons.prems(1), where t = t]
      from Returned True t Cons.prems(2)
      have run: "run_triggers rt ms eid ts ?c st w = Continue c' st' w'"
        by (simp add: run_triggers_step del: run_triggers.simps)
      note ih = Cons.IH[OF p(1) run]
      have tt: "trigger_types (p # ts) = insert t (trigger_types ts)"
        using t(1) by (auto simp: trigger_types_def)
      have "map_of (stepResults c') (trigger_key t) = Some (triggerData c)"
        using run_triggers_grows[OF p(1), of rt ms eid ts st w] run p(6)
        by (auto simp: grows_def map_le_def dom_def)
      with ih p(3,4,5,7) t(2) show ?thesis
        unfolding tt by auto
    qed
  qed
qed

lemma outer_catch_context: "run_context (outer_catch ms eid e st w c) = c"
  by (simp add: outer_catch_def Let_def split: outcome.splits)

lemma complete_run_context: "run_context (complete_run ms eid c st w) = c"
  by (simp add: complete_run_def outer_catch_context split: outcome.splits)

lemma after_loop_context:
  "run_context (after_loop ms eid f k) =
     (case f of Continue c st w \<Rightarrow> run_context (k c st w) | _ \<Rightarrow> flow_context f)"
  by (cases f) (simp_all add: outer_catch_context)

lemma seeded_context_props:
  "trigger_entries (seeded_context wfl td)" "fresh_from 0 (seeded_context wfl td)"
  "keys_of (stepResults (seeded_context wfl td)) = {}"
  "keys_of (variables (seeded_context wfl td)) = {''trigger''}"
  by (simp_all add: seeded_context_def Let_def trigger_entries_def fresh_from_def keys_of_def
      result_key_def)

lemma executeWorkflow_grows:
  "grows (seeded_context wfl td) (run_context (executeWorkflow rt ms hs wfl td st w))"
proof -
  let ?eid = "length (executions st)" and ?st0 = "created_store st wfl td"
    and ?c0 = "seeded_context wfl td"
  let ?tf = "run_triggers rt ms ?eid (trigger_list wfl) ?c0 ?st0 w"
  have g0: "grows ?c0 (flow_context ?tf)"
    by (rule run_triggers_grows) (rule seeded_context_props)
  show ?thesis
  proof (cases ?tf)
    case (Continue c1 st1 w1)
    from run_triggers_Continue[OF seeded_context_props(1) Continue, of 0] seeded_context_props(2)
    have f1: "fresh_from 0 c1" by simp
    let ?af = "run_actions rt ms hs ?eid 0 (action_list wfl) c1 st1 w1"
    have g1: "grows c1 (flow_context ?af)"
      by (rule run_actions_grows[OF f1])
    have "run_context (executeWorkflow rt ms hs wfl td st w) = flow_context ?af"
      unfolding executeWorkflow_loops
      by (cases ?af)
        (simp_all add: Continue after_loop_context complete_run_context outer_catch_context)
    with g0 g1 Continue show ?thesis
      by (auto intro: grows_trans)
  next
    case (Return r st1 w1 c1)
    with g0 show ?thesis
      unfolding executeWorkflow_loops by (simp add: after_loop_context)
  next
    case (Raise e st1 w1 c1)
    with g0 show ?thesis
      unfolding executeWorkflow_loops by (simp add: after_loop_context outer_catch_context)
  qed
qed

subsection \<open>Properties of the resolver\<close>



lemma walk_undefined [simp]: "walk rt (Val JUndefined) ks = Val JUndefined"
  by (cases ks) simp_all


text \<open>
  What the resolver does keep. A mapping whose entries are those of an object without
  an own \<^verbatim>\<open>__proto__\<close> key is copied entry by entry, keys and order unchanged, and a
  sequence element by element. Under a runtime without inherited properties, resolving
  such a value against the empty context gives the value back.
\<close>

lemma insert_index_last:
  "(\<forall>x \<in> set kvs. is_index (fst x) \<and> parseInt (fst x) < parseInt k) \<Longrightarrow>
     insert_index k v kvs = kvs @ [(k, v)]"
proof (induction kvs)
  case Nil
  show ?case by simp
next
  case (Cons a kvs)
  then show ?case by (cases a) simp
qed

lemma obj_set_last:
  assumes "k \<notin> fst ` set kvs" and "\<forall>x \<in> set kvs. key_before (fst x) k"
  shows "obj_set kvs k v = kvs @ [(k, v)]"
proof (cases "is_index k")
  case True
  with assms(2) have "\<forall>x \<in> set kvs. is_index (fst x) \<and> parseInt (fst x) < parseInt k"
    by (simp add: key_before_def)
  with assms(1) True show ?thesis
    by (simp add: obj_set_def insert_index_last)
next
  case False
  with assms(1) show ?thesis
    by (simp add: obj_set_def)
qed

lemma copy_entries:
  assumes "own_entries kvs" and "''__proto__'' \<notin> fst ` set kvs"
  shows "foldl (\<lambda>result (key, value). obj_write result key (g value)) (None, []) kvs =
         (None, map (\<lambda>(k, v). (k, g v)) kvs)"
  using assms
proof (induction kvs rule: rev_induct)
  case Nil
  show ?case by simp
next
  case (snoc kv kvs)
  obtain k v where kv: "kv = (k, v)" by (cases kv)
  from snoc.prems have ok: "own_entries kvs" "''__proto__'' \<notin> fst ` set kvs"
    and k: "k \<notin> fst ` set kvs" "k \<noteq> ''__proto__''" "\<forall>x \<in> set kvs. key_before (fst x) k"
    by (auto simp: own_entries_def kv sorted_wrt_append)
  let ?m = "map (\<lambda>(k, v). (k, g v)) kvs"
  have keys: "fst ` set ?m = fst ` set kvs"
    by force
  have before: "\<forall>x \<in> set ?m. key_before (fst x) k"
    using k(3) by auto
  from snoc.IH[OF ok]
  have "foldl (\<lambda>result (key, value). obj_write result key (g value)) (None, []) kvs = (None, ?m)" .
  then show ?case
    using obj_set_last[of k ?m "g v"] k(1,2) keys before by (simp add: kv obj_write_def)
qed

lemma substituteVariables_entries:
  assumes "own_entries kvs" and "''__proto__'' \<notin> fst ` set kvs"
  shows "substituteVariables rt (JObj kvs) ctx =
           JObj (map (\<lambda>(k, v). (k, substituteVariables rt v ctx)) kvs)"
  using copy_entries[OF assms, of "\<lambda>v. substituteVariables rt v ctx"]
  by (simp add: make_object_def)

lemma substituteVariables_elements:
  "substituteVariables rt (JArr xs) ctx = JArr (map (\<lambda>x. substituteVariables rt x ctx) xs)"
  "substituteVariables rt (JNum n) ctx = JNum n"
  "substituteVariables rt (JBool b) ctx = JBool b"
  "substituteVariables rt JNull ctx = JNull"
  by simp_all

lemma match_at_Some:
  assumes "match_at s = Some (p, r)"
  shows "s = ''{{'' @ p @ ''}}'' @ r"
proof -
  let ?P = "\<lambda>c. c \<noteq> CHR ''}''"
  from assms have a: "take 2 s = ''{{''" "p = takeWhile ?P (drop 2 s)"
    "take 2 (dropWhile ?P (drop 2 s)) = ''}}''" "r = drop 2 (dropWhile ?P (drop 2 s))"
    by (auto simp: match_at_def Let_def split: if_splits)
  have "s = take 2 s @ drop 2 s" by simp
  also have "drop 2 s = takeWhile ?P (drop 2 s) @ dropWhile ?P (drop 2 s)" by simp
  also have "dropWhile ?P (drop 2 s) = take 2 (dropWhile ?P (drop 2 s)) @ drop 2 (dropWhile ?P (drop 2 s))"
    by simp
  finally show ?thesis
    using a by simp
qed

lemma replace_all_same: "replace_all (\<lambda>m p. m) s = s"
proof (induction "\<lambda>(m::string) (p::string). m" s rule: replace_all.induct)
  case 1
  show ?case by simp
next
  case (2 c cs)
  show ?case
  proof (cases "match_at (c # cs)")
    case None
    with 2 show ?thesis by simp
  next
    case (Some pr)
    obtain p r where pr: "pr = (p, r)" by (cases pr)
    from match_at_Some[OF Some[unfolded pr]] have s: "c # cs = ''{{'' @ p @ ''}}'' @ r" .
    from 2(2)[OF Some pr[symmetric]] have "replace_all (\<lambda>m p. m) r = r" .
    with Some pr have "replace_all (\<lambda>m p. m) (c # cs) = ''{{'' @ p @ ''}}'' @ r"
      by simp
    with s show ?thesis by simp
  qed
qed

lemma split_dot_nonempty: "split_dot path \<noteq> []"
  by (induction path) (auto split: list.splits)

lemma getNestedValue_bare:
  assumes "bare rt"
  shows "getNestedValue rt (JObj []) path = Val JUndefined"
proof -
  obtain k ks where sp: "split_dot path = k # ks"
    using split_dot_nonempty[of path] by (cases "split_dot path") auto
  from assms have "walk rt (Val (JObj [])) (k # ks) = Val JUndefined"
    by (simp add: bare_def)
  with sp show ?thesis
    by (simp add: getNestedValue_def)
qed

lemma substituteInString_bare:
  assumes "bare rt"
  shows "substituteInString rt s (JObj []) = s"
proof -
  have "(\<lambda>match path.
          let value = getNestedValue rt (JObj []) (trim path)
          in if value \<noteq> Val JUndefined
             then (case looked_string rt value of Some s \<Rightarrow> s | None \<Rightarrow> match)
             else match) = (\<lambda>m p. m)"
    by (simp add: getNestedValue_bare[OF assms])
  then show ?thesis
    by (simp only: substituteInString_def replace_all_same)
qed

lemma substituteVariables_bare:
  assumes "bare rt" and "plain_json v"
  shows "substituteVariables rt v (JObj []) = v"
  using assms(2)
proof (induction v)
  case (JStr s)
  show ?case by (simp add: substituteInString_bare[OF assms(1)])
next
  case (JArr xs)
  then show ?case by (simp add: map_idI)
next
  case (JObj kvs)
  then have ok: "own_entries kvs" "''__proto__'' \<notin> fst ` set kvs"
    and vs: "\<And>k v. (k, v) \<in> set kvs \<Longrightarrow> substituteVariables rt v (JObj []) = v"
    by (auto simp: image_iff) 
  have "map (\<lambda>(k, v). (k, substituteVariables rt v (JObj []))) kvs = kvs"
    by (rule map_idI) (auto simp: vs)
  with substituteVariables_entries[OF ok, of rt "JObj []"] show ?case
    by simp
qed simp_all




















text \<open>How a run that satisfies the invariant ended, and what the terminal write leaves
  in the store.\<close>

lemma terminal_run_cases:
  assumes "terminal_run P W eid r"
  obtains
    (thrown) e st' where "P (tables st')" "writes st' = W" "\<not> eid < length (executions st')"
      "returned r = Threw e" "run_store r = st'"
  | (failed) e e' st' where "P (tables st')" "writes st' = W" "eid < length (executions st')"
      "returned r = Returned \<lparr>success = False, data = JUndefined, error = Some e,
                               executionId = eid\<rparr>"
      "run_store r = terminal_store st' eid ''failed'' (Some e') None"
  | (completed) st' where "P (tables st')" "writes st' = W" "eid < length (executions st')"
      "returned r = Returned \<lparr>success = True, data = JObj (stepResults (run_context r)),
                               error = None, executionId = eid\<rparr>"
      "run_store r = terminal_store st' eid ''completed'' None
                       (Some (JObj (stepResults (run_context r))))"
proof -
  from assms obtain st' where st': "P (tables st')" "writes st' = W"
    and c: "if eid < length (executions st') then
           (\<exists>e e'. returned r = Returned \<lparr>success = False, data = JUndefined, error = Some e,
                                            executionId = eid\<rparr> \<and>
                   run_store r = terminal_store st' eid ''failed'' (Some e') None) \<or>
           (returned r = Returned \<lparr>success = True, data = JObj (stepResults (run_context r)),
                                    error = None, executionId = eid\<rparr> \<and>
            run_store r = terminal_store st' eid ''completed'' None
                            (Some (JObj (stepResults (run_context r)))))
         else (\<exists>e. returned r = Threw e) \<and> run_store r = st'"
    unfolding terminal_run_def by blast
  show thesis
  proof (cases "eid < length (executions st')")
    case False
    with c st' thrown show ?thesis by auto
  next
    case True
    with c consider
      (f) e e' where "returned r = Returned \<lparr>success = False, data = JUndefined, error = Some e,
                                            executionId = eid\<rparr>"
        "run_store r = terminal_store st' eid ''failed'' (Some e') None"
    | (c) "returned r = Returned \<lparr>success = True, data = JObj (stepResults (run_context r)),
                                    error = None, executionId = eid\<rparr>"
        "run_store r = terminal_store st' eid ''completed'' None
                            (Some (JObj (stepResults (run_context r))))"
      by auto
    then show ?thesis
    proof cases
      case f
      with st' True failed show ?thesis by blast
    next
      case c
      with st' True completed show ?thesis by blast
    qed
  qed
qed

lemma terminal_store_simps:
  "workflows (terminal_store st eid s err out) = workflows st"
  "clock (terminal_store st eid s err out) = clock st"
  "length (executions (terminal_store st eid s err out)) = length (executions st)"
  "notifications (terminal_store st eid s err out) =
     notifications st @ (if s = ''failed'' then [failure_notification st eid err] else [])"
  "writes (terminal_store st eid s err out) =
     writes st @ ExecutionUpdate eid s #
       (if s = ''failed'' then [NotificationCreate (failure_notification st eid err)] else [])"
  by (simp_all add: terminal_store_def)

lemma created_store_tables:
  "notifications (tables (created_store st wfl td)) = notifications st"
  "workflows (tables (created_store st wfl td)) = workflows st"
  "length (executions st) < length (executions (tables (created_store st wfl td)))"
  "exec_workflowId (executions (tables (created_store st wfl td)) ! length (executions st)) =
     workflow_id wfl"
  by (simp_all add: created_store_simps)

lemma preserves_True: "preserves hs (\<lambda>db. True)"
  by (simp add: preserves_def)

text \<open>
  Two runs of the resolver on the concrete runtime. A copy whose source has the key
  \<^verbatim>\<open>__proto__\<close> with an object loses the key and inherits the entries of that object,
  which the dispatcher then reads; and paths that name built-in properties resolve
  against the empty context.
\<close>

lemma prototype_write_example:
  "substituteVariables ecma
     (JObj [(''__proto__'', JObj [(''type'', JStr ''delay'')]), (''config'', JObj [])]) (JObj []) =
     JProto (JObj [(''type'', JStr ''delay'')]) [(''config'', JObj [])] \<and>
   read_prop (JProto (JObj [(''type'', JStr ''delay'')]) [(''config'', JObj [])]) ''type'' =
     JStr ''delay'' \<and>
   fst (executeAction ecma v8 counting_handlers
     (JProto (JObj [(''type'', JStr ''delay'')]) [(''config'', JObj [])])
     mail_run empty_store 0) = Returned \<lparr>success = True, data = JObj [], error = None\<rparr>"
  by (simp add: eval_defs mail_run_def)

lemma builtin_reads_example:
  "substituteVariables ecma (JStr ''{{constructor.name}}/{{__proto__}}/{{toLocaleString}}'')
     (JObj []) =
     JStr ''Object/[object Object]/function toLocaleString() { [native code] }''"
  by (simp add: eval_defs)

section \<open>The claims\<close>

text \<open>
  C1. When the dispatched action returns \<^verbatim>\<open>success: false\<close>, the run is to become
  \<^verbatim>\<open>failed\<close> with the message \<^verbatim>\<open>Action <i+1> failed: <error>\<close>, and
  \<^verbatim>\<open>executeWorkflow\<close> is to return that message. On a workflow whose only action has
  the unknown type \<^verbatim>\<open>fax\<close> the value returned carries the message
  \<^verbatim>\<open>Action 1 failed: Unknown action type: fax\<close>, but the error written to the
  Execution (and put into the notification) is the handler's bare
  \<^verbatim>\<open>Unknown action type: fax\<close>: line 72 passes \<^verbatim>\<open>actionResult.error\<close> to
  \<^verbatim>\<open>updateExecutionStatus\<close>, where the fault branch (lines 84 and 85) passes the
  prefixed message.
\<close>

theorem action_failure_message_not_persisted:
  "returned (executeWorkflow ecma v8 counting_handlers fax_workflow (JObj []) empty_store 0) =
     Returned \<lparr>success = False, data = JUndefined,
               error = Some ''Action 1 failed: Unknown action type: fax'', executionId = 0\<rparr> \<and>
   status (executions (run_store
     (executeWorkflow ecma v8 counting_handlers fax_workflow (JObj []) empty_store 0)) ! 0) =
     ''failed'' \<and>
   exec_error (executions (run_store
     (executeWorkflow ecma v8 counting_handlers fax_workflow (JObj []) empty_store 0)) ! 0) =
     Some ''Unknown action type: fax''"
  by (simp add: eval_defs)

text \<open>
  C7. For an action whose \<^verbatim>\<open>type\<close> is a string other than \<^verbatim>\<open>email\<close>,
  \<^verbatim>\<open>webhook\<close>, \<^verbatim>\<open>database\<close>, \<^verbatim>\<open>sms\<close>, \<^verbatim>\<open>notification\<close> and \<^verbatim>\<open>delay\<close>,
  \<^verbatim>\<open>executeAction\<close> returns \<^verbatim>\<open>{success: false, error: "Unknown action type: <type>"}\<close>
  and does not throw; no handler runs, so the store and the world are as they were. In
  the action loop such a step ends the run: the loop returns the failure at once, the
  execution is \<^verbatim>\<open>failed\<close>, the rest of the actions is not run, and the context gets
  no entry for the step.
\<close>

theorem unknown_action_type_fails:
  "(read_prop action ''type'' = JStr t \<and> t \<in> unknown_action_types \<longrightarrow>
      executeAction rt ms hs action c st w =
        (Returned \<lparr>success = False, data = JUndefined,
                   error = Some (''Unknown action type: '' @ t)\<rparr>, st, w)) \<and>
   (read_prop (substituteVariables rt action (context_value c)) ''type'' = JStr t \<and>
    t \<in> unknown_action_types \<and> eid < length (executions st) \<longrightarrow>
      (\<exists>st1. run_actions rt ms hs eid i (action # rest) c st w =
               Return \<lparr>success = False, data = JUndefined,
                       error = Some (''Action '' @ decimal (i + 1) @
                                     '' failed: Unknown action type: '' @ t),
                       executionId = eid\<rparr> st1 w c \<and>
             status (executions st1 ! eid) = ''failed''))"
proof (intro conjI impI)
  assume "read_prop action ''type'' = JStr t \<and> t \<in> unknown_action_types"
  then show "executeAction rt ms hs action c st w =
        (Returned \<lparr>success = False, data = JUndefined,
                   error = Some (''Unknown action type: '' @ t)\<rparr>, st, w)"
    by (simp add: executeAction_unknown unknown_action_types_def)
next
  let ?p = "substituteVariables rt action (context_value c)"
  assume a: "read_prop ?p ''type'' = JStr t \<and> t \<in> unknown_action_types \<and> eid < length (executions st)"
  then have "executeAction rt ms hs ?p c st w =
        (Returned \<lparr>success = False, data = JUndefined,
                   error = Some (''Unknown action type: '' @ t)\<rparr>, st, w)"
    by (simp add: executeAction_unknown unknown_action_types_def)
  then have "run_actions rt ms hs eid i (action # rest) c st w =
      Return \<lparr>success = False, data = JUndefined,
              error = Some (''Action '' @ decimal (i + 1) @ '' failed: '' @
                            undefined_string (error \<lparr>success = False, data = JUndefined,
                               error = Some (''Unknown action type: '' @ t)\<rparr>)),
              executionId = eid\<rparr>
        (terminal_store st eid ''failed'' (error \<lparr>success = False, data = JUndefined,
                               error = Some (''Unknown action type: '' @ t)\<rparr>) None) w c"
    by (rule run_actions_failure) (use a in simp_all)
  with a
  show "\<exists>st1. run_actions rt ms hs eid i (action # rest) c st w =
               Return \<lparr>success = False, data = JUndefined,
                       error = Some (''Action '' @ decimal (i + 1) @
                                     '' failed: Unknown action type: '' @ t),
                       executionId = eid\<rparr> st1 w c \<and>
             status (executions st1 ! eid) = ''failed''"
    by (simp add: undefined_string_def terminal_store_row)
qed

theorem unknown_action_type_fails_witness:
  "read_prop (JObj [(''type'', JStr ''fax'')]) ''type'' = JStr ''fax'' \<and>
   ''fax'' \<in> unknown_action_types \<and>
   executeAction ecma v8 counting_handlers (JObj [(''type'', JStr ''fax'')])
       (seeded_context fax_workflow JNull) (created_store empty_store fax_workflow JNull) (0::nat) =
     (Returned \<lparr>success = False, data = JUndefined, error = Some ''Unknown action type: fax''\<rparr>,
      created_store empty_store fax_workflow JNull, 0) \<and>
   read_prop (substituteVariables ecma (JObj [(''type'', JStr ''fax'')])
       (context_value (seeded_context fax_workflow JNull))) ''type'' = JStr ''fax'' \<and>
   0 < length (executions (created_store empty_store fax_workflow JNull)) \<and>
   (\<exists>st1. run_actions ecma v8 counting_handlers 0 0 [JObj [(''type'', JStr ''fax'')], JNull]
             (seeded_context fax_workflow JNull) (created_store empty_store fax_workflow JNull)
             (0::nat) =
           Return \<lparr>success = False, data = JUndefined,
                   error = Some ''Action 1 failed: Unknown action type: fax'', executionId = 0\<rparr>
             st1 0 (seeded_context fax_workflow JNull) \<and>
         status (executions st1 ! 0) = ''failed'')"
proof -
  have h1: "read_prop (JObj [(''type'', JStr ''fax'')]) ''type'' = JStr ''fax'' \<and>
            ''fax'' \<in> unknown_action_types"
    by (simp add: read_prop_def unknown_action_types_def)
  have h2: "read_prop (substituteVariables ecma (JObj [(''type'', JStr ''fax'')])
              (context_value (seeded_context fax_workflow JNull))) ''type'' = JStr ''fax'' \<and>
            ''fax'' \<in> unknown_action_types \<and>
            0 < length (executions (created_store empty_store fax_workflow JNull))"
    by (simp add: eval_defs unknown_action_types_def created_store_def)
  from unknown_action_type_fails[where action = "JObj [(''type'', JStr ''fax'')]"
      and t = "''fax''" and rt = ecma and ms = v8 and hs = counting_handlers
      and c = "seeded_context fax_workflow JNull"
      and st = "created_store empty_store fax_workflow JNull" and w = "0::nat"
      and eid = 0 and i = 0 and rest = "[JNull]"] h1 h2
  show ?thesis
    by (simp add: decimal.simps digit_char_def)
qed

text \<open>
  C3. A run that returns has reached exactly one of the terminal states \<^verbatim>\<open>completed\<close>
  and \<^verbatim>\<open>failed\<close>, by exactly one terminal write: the journal of the engine holds the
  create, one update, and after the update only the notification of a failure, whatever
  the handlers wrote in between. That update sets \<^verbatim>\<open>endTime\<close>; \<^verbatim>\<open>output\<close> is set
  exactly when the status is \<^verbatim>\<open>completed\<close>, and is then the final \<^verbatim>\<open>stepResults\<close>,
  which the run returns; \<^verbatim>\<open>error\<close> is set exactly when the status is \<^verbatim>\<open>failed\<close>. A
  run can end without a terminal state only by a fault of the store: the Execution is
  no longer in the database (a handler removed it), and the engine has made no write
  after the create. When no handler removes the Execution, the run returns.
\<close>

theorem terminal_state_exclusive:
  "let r = executeWorkflow rt ms hs wfl td st w;
       eid = length (executions st);
       row = executions (run_store r) ! eid
   in (\<forall>res. returned r = Returned res \<longrightarrow>
         eid < length (executions (run_store r)) \<and> executionId res = eid \<and>
         (success res \<longleftrightarrow> status row = ''completed'') \<and>
         (status row = ''completed'' \<or> status row = ''failed'') \<and>
         writes (run_store r) =
           writes st @ [ExecutionCreate eid, ExecutionUpdate eid (status row)] @
           (if status row = ''failed''
            then [NotificationCreate (last (notifications (run_store r)))] else []) \<and>
         endTime row = Some (clock (run_store r)) \<and>
         (exec_output row \<noteq> None \<longleftrightarrow> status row = ''completed'') \<and>
         (status row = ''completed'' \<longrightarrow>
            exec_output row = Some (JObj (stepResults (run_context r))) \<and>
            data res = JObj (stepResults (run_context r))) \<and>
         (exec_error row \<noteq> None \<longleftrightarrow> status row = ''failed'')) \<and>
      (\<forall>e. returned r = Threw e \<longrightarrow>
         length (executions (run_store r)) \<le> eid \<and>
         writes (run_store r) = writes st @ [ExecutionCreate eid]) \<and>
      (preserves hs (\<lambda>db. eid < length (executions db)) \<longrightarrow> (\<exists>res. returned r = Returned res))"
proof -
  let ?r = "executeWorkflow rt ms hs wfl td st w" and ?eid = "length (executions st)"
  let ?W = "writes st @ [ExecutionCreate ?eid]"
  have t: "terminal_run (\<lambda>db. True) ?W ?eid ?r"
    by (rule executeWorkflow_terminal) (simp_all add: preserves_True)
  have 1: "\<forall>res. returned ?r = Returned res \<longrightarrow>
         ?eid < length (executions (run_store ?r)) \<and> executionId res = ?eid \<and>
         (success res \<longleftrightarrow> status (executions (run_store ?r) ! ?eid) = ''completed'') \<and>
         (status (executions (run_store ?r) ! ?eid) = ''completed'' \<or>
          status (executions (run_store ?r) ! ?eid) = ''failed'') \<and>
         writes (run_store ?r) =
           writes st @ [ExecutionCreate ?eid,
                        ExecutionUpdate ?eid (status (executions (run_store ?r) ! ?eid))] @
           (if status (executions (run_store ?r) ! ?eid) = ''failed''
            then [NotificationCreate (last (notifications (run_store ?r)))] else []) \<and>
         endTime (executions (run_store ?r) ! ?eid) = Some (clock (run_store ?r)) \<and>
         (exec_output (executions (run_store ?r) ! ?eid) \<noteq> None \<longleftrightarrow>
          status (executions (run_store ?r) ! ?eid) = ''completed'') \<and>
         (status (executions (run_store ?r) ! ?eid) = ''completed'' \<longrightarrow>
            exec_output (executions (run_store ?r) ! ?eid) =
              Some (JObj (stepResults (run_context ?r))) \<and>
            data res = JObj (stepResults (run_context ?r))) \<and>
         (exec_error (executions (run_store ?r) ! ?eid) \<noteq> None \<longleftrightarrow>
          status (executions (run_store ?r) ! ?eid) = ''failed'')"
    using t
  proof (cases rule: terminal_run_cases)
    case (thrown e st')
    then show ?thesis by simp
  next
    case (failed e e' st')
    then show ?thesis
      by (simp add: terminal_store_simps terminal_store_row)
  next
    case (completed st')
    then show ?thesis
      by (simp add: terminal_store_simps terminal_store_row)
  qed
  have 2: "\<forall>e. returned ?r = Threw e \<longrightarrow>
         length (executions (run_store ?r)) \<le> ?eid \<and> writes (run_store ?r) = ?W"
    using t by (cases rule: terminal_run_cases) simp_all
  have 3: "\<exists>res. returned ?r = Returned res"
    if p: "preserves hs (\<lambda>db. ?eid < length (executions db))"
  proof -
    have "terminal_run (\<lambda>db. ?eid < length (executions db)) ?W ?eid ?r"
      by (rule executeWorkflow_terminal[OF p]) (rule created_store_tables)
    then show ?thesis
      by (cases rule: terminal_run_cases) simp_all
  qed
  from 1 2 3 show ?thesis
    by (simp add: Let_def)
qed

theorem terminal_state_exclusive_witness:
  "returned (executeWorkflow ecma v8 counting_handlers delay_workflow
       (JObj [(''ms'', JNum ''50'')]) empty_store 0) =
     Returned \<lparr>success = True,
               data = JObj [(''trigger_webhook'', JObj [(''ms'', JNum ''50'')]),
                            (''action_0'', JObj [(''duration'', JStr ''50'')])],
               error = None, executionId = 0\<rparr> \<and>
   status (executions (run_store (executeWorkflow ecma v8 counting_handlers delay_workflow
       (JObj [(''ms'', JNum ''50'')]) empty_store 0)) ! 0) = ''completed'' \<and>
   exec_output (executions (run_store (executeWorkflow ecma v8 counting_handlers delay_workflow
       (JObj [(''ms'', JNum ''50'')]) empty_store 0)) ! 0) =
     Some (JObj [(''trigger_webhook'', JObj [(''ms'', JNum ''50'')]),
                 (''action_0'', JObj [(''duration'', JStr ''50'')])]) \<and>
   writes (run_store (executeWorkflow ecma v8 counting_handlers delay_workflow
       (JObj [(''ms'', JNum ''50'')]) empty_store 0)) =
     [ExecutionCreate 0, ExecutionUpdate 0 ''completed''] \<and>
   preserves counting_handlers (\<lambda>db. 0 < length (executions db)) \<and>
   returned (executeWorkflow ecma v8 writing_handlers purge_workflow JNull empty_store 0) =
     Threw (ErrorObj ''Record to update not found.'') \<and>
   executions (run_store (executeWorkflow ecma v8 writing_handlers purge_workflow JNull
       empty_store 0)) = [] \<and>
   writes (run_store (executeWorkflow ecma v8 writing_handlers purge_workflow JNull
       empty_store 0)) = [ExecutionCreate 0]"
proof -
  let ?r = "executeWorkflow ecma v8 counting_handlers delay_workflow
       (JObj [(''ms'', JNum ''50'')]) empty_store 0"
  let ?p = "executeWorkflow ecma v8 writing_handlers purge_workflow JNull empty_store 0"
  have r: "returned ?r =
     Returned \<lparr>success = True,
               data = JObj [(''trigger_webhook'', JObj [(''ms'', JNum ''50'')]),
                            (''action_0'', JObj [(''duration'', JStr ''50'')])],
               error = None, executionId = 0\<rparr>"
    and c: "stepResults (run_context ?r) =
      [(''trigger_webhook'', JObj [(''ms'', JNum ''50'')]),
       (''action_0'', JObj [(''duration'', JStr ''50'')])]"
    by (simp_all add: eval_defs delay_workflow_def)
  have p: "returned ?p = Threw (ErrorObj ''Record to update not found.'')"
    and e: "executions (run_store ?p) = []"
    by (simp_all add: eval_defs purge_workflow_def writing_handlers_def purging_def)
  have k: "preserves counting_handlers (\<lambda>db. 0 < length (executions db))"
    by (simp add: preserves_def handler_set_def counting_handlers_def counting_def)
  have s: "length (executions empty_store) = 0" "writes empty_store = []"
    by (simp_all add: empty_store_def)
  note t1 = terminal_state_exclusive[of ecma v8 counting_handlers delay_workflow
      "JObj [(''ms'', JNum ''50'')]" empty_store "0::nat", unfolded Let_def s,
      THEN conjunct1, rule_format, OF r]
  note t2 = terminal_state_exclusive[of ecma v8 writing_handlers purge_workflow
      JNull empty_store "0::nat", unfolded Let_def s,
      THEN conjunct2, THEN conjunct1, rule_format, OF p]
  note t3 = terminal_state_exclusive[of ecma v8 counting_handlers delay_workflow
      "JObj [(''ms'', JNum ''50'')]" empty_store "0::nat", unfolded Let_def s,
      THEN conjunct2, THEN conjunct2, rule_format, OF k]
  from t1 t2 t3 r c p e k show ?thesis
    by simp
qed

text \<open>
  C4. A run that returns a failure has made, before it returns, exactly one write after
  the terminal update: the creation of one notification, the last of the table. Its
  type is \<^verbatim>\<open>workflow_error\<close>, its message is \<^verbatim>\<open>Workflow "<name>" failed: <error>\<close>
  with the error recorded in the Execution, its metadata name the workflow of the
  Execution and the Execution, and it is addressed to the owner of that workflow, name
  and owner being those the database holds for the workflow at that time. A run that
  returns a success has made no write after the terminal update: the engine creates no
  notification for it. The notifications the handlers create (a \<^verbatim>\<open>notification\<close>
  action does) are not the engine's: when no handler writes a notification, the table
  gains the one notification of the failure and nothing else, and nothing at all for a
  success; when no handler changes the workflow of the Execution, the metadata name
  the workflow that was run.
\<close>

theorem failure_notification_created:
  "let r = executeWorkflow rt ms hs wfl td st w;
       eid = length (executions st);
       row = executions (run_store r) ! eid;
       stored = workflows (run_store r) (exec_workflowId row)
   in (\<forall>res. returned r = Returned res \<and> \<not> success res \<longrightarrow>
         status row = ''failed'' \<and>
         (\<exists>e. exec_error row = Some e \<and>
              notifications (run_store r) \<noteq> [] \<and>
              last (notifications (run_store r)) =
                \<lparr>notif_userId = workflow_userId stored, notif_type = ''workflow_error'',
                  message = ''Workflow '' @ [CHR 0x22] @ workflow_name stored @ [CHR 0x22] @
                            '' failed: '' @ e,
                  metadata_workflowId = exec_workflowId row,
                  metadata_executionId = Some eid, metadata_context = None\<rparr>) \<and>
         writes (run_store r) =
           writes st @ [ExecutionCreate eid, ExecutionUpdate eid ''failed'',
                        NotificationCreate (last (notifications (run_store r)))] \<and>
         (preserves hs (\<lambda>db. notifications db = notifications st) \<longrightarrow>
            butlast (notifications (run_store r)) = notifications st) \<and>
         (preserves hs (\<lambda>db. eid < length (executions db) \<and>
                             exec_workflowId (executions db ! eid) = workflow_id wfl) \<longrightarrow>
            exec_workflowId row = workflow_id wfl) \<and>
         (preserves hs (\<lambda>db. workflows db (workflow_id wfl) = workflows st (workflow_id wfl)) \<longrightarrow>
            workflows (run_store r) (workflow_id wfl) = workflows st (workflow_id wfl))) \<and>
      (\<forall>res. returned r = Returned res \<and> success res \<longrightarrow>
         status row = ''completed'' \<and>
         writes (run_store r) = writes st @ [ExecutionCreate eid, ExecutionUpdate eid ''completed''] \<and>
         (preserves hs (\<lambda>db. notifications db = notifications st) \<longrightarrow>
            notifications (run_store r) = notifications st))"
proof -
  let ?r = "executeWorkflow rt ms hs wfl td st w" and ?eid = "length (executions st)"
  let ?W = "writes st @ [ExecutionCreate ?eid]"
  let ?row = "executions (run_store ?r) ! ?eid"
  let ?stored = "workflows (run_store ?r) (exec_workflowId ?row)"
  have run: "terminal_run P ?W ?eid ?r"
    if "preserves hs P" "P (tables (created_store st wfl td))" for P
    using that by (rule executeWorkflow_terminal)
  have f1: "status ?row = ''failed'' \<and>
         (\<exists>e. exec_error ?row = Some e \<and>
              notifications (run_store ?r) \<noteq> [] \<and>
              last (notifications (run_store ?r)) =
                \<lparr>notif_userId = workflow_userId ?stored, notif_type = ''workflow_error'',
                  message = ''Workflow '' @ [CHR 0x22] @ workflow_name ?stored @ [CHR 0x22] @
                            '' failed: '' @ e,
                  metadata_workflowId = exec_workflowId ?row,
                  metadata_executionId = Some ?eid, metadata_context = None\<rparr>) \<and>
         writes (run_store ?r) =
           writes st @ [ExecutionCreate ?eid, ExecutionUpdate ?eid ''failed'',
                        NotificationCreate (last (notifications (run_store ?r)))]"
    if a: "returned ?r = Returned res" "\<not> success res" for res
    using run[OF preserves_True TrueI]
  proof (cases rule: terminal_run_cases)
    case (failed e e' st')
    then show ?thesis
      by (simp add: terminal_store_simps terminal_store_row failure_notification_def
          null_string_def)
  qed (use a in auto)
  have f2: "butlast (notifications (run_store ?r)) = notifications st"
    if a: "returned ?r = Returned res" "\<not> success res"
      and p: "preserves hs (\<lambda>db. notifications db = notifications st)" for res
    using run[OF p, simplified created_store_simps tables_simps nth_append_length, simplified]
  proof (cases rule: terminal_run_cases)
    case (failed e e' st')
    then show ?thesis
      by (simp add: terminal_store_simps)
  qed (use a in \<open>auto simp: created_store_simps\<close>)
  have f3: "exec_workflowId ?row = workflow_id wfl"
    if a: "returned ?r = Returned res" "\<not> success res"
      and p: "preserves hs (\<lambda>db. ?eid < length (executions db) \<and>
                             exec_workflowId (executions db ! ?eid) = workflow_id wfl)" for res
    using run[OF p, simplified created_store_simps tables_simps nth_append_length, simplified]
  proof (cases rule: terminal_run_cases)
    case (failed e e' st')
    then show ?thesis
      by (simp add: terminal_store_row)
  qed (use a in \<open>auto simp: created_store_simps\<close>)
  have f4: "workflows (run_store ?r) (workflow_id wfl) = workflows st (workflow_id wfl)"
    if a: "returned ?r = Returned res" "\<not> success res"
      and p: "preserves hs (\<lambda>db. workflows db (workflow_id wfl) = workflows st (workflow_id wfl))"
    for res
    using run[OF p, simplified created_store_simps tables_simps nth_append_length, simplified]
  proof (cases rule: terminal_run_cases)
    case (failed e e' st')
    then show ?thesis
      by (simp add: terminal_store_simps)
  qed (use a in \<open>auto simp: created_store_simps\<close>)
  have c1: "status ?row = ''completed'' \<and>
         writes (run_store ?r) = writes st @ [ExecutionCreate ?eid, ExecutionUpdate ?eid ''completed'']"
    if a: "returned ?r = Returned res" "success res" for res
    using run[OF preserves_True TrueI]
  proof (cases rule: terminal_run_cases)
    case (completed st')
    then show ?thesis
      by (simp add: terminal_store_simps terminal_store_row)
  qed (use a in auto)
  have c2: "notifications (run_store ?r) = notifications st"
    if a: "returned ?r = Returned res" "success res"
      and p: "preserves hs (\<lambda>db. notifications db = notifications st)" for res
    using run[OF p, simplified created_store_simps tables_simps nth_append_length, simplified]
  proof (cases rule: terminal_run_cases)
    case (completed st')
    then show ?thesis
      by (simp add: terminal_store_simps)
  qed (use a in \<open>auto simp: created_store_simps\<close>)
  show ?thesis
    unfolding Let_def
  proof (intro conjI allI impI)
    fix res
    assume a: "returned ?r = Returned res \<and> \<not> success res"
    from f1[of res] a show "status ?row = ''failed''" by simp
    from f1[of res] a show "\<exists>e. exec_error ?row = Some e \<and>
              notifications (run_store ?r) \<noteq> [] \<and>
              last (notifications (run_store ?r)) =
                \<lparr>notif_userId = workflow_userId ?stored, notif_type = ''workflow_error'',
                  message = ''Workflow '' @ [CHR 0x22] @ workflow_name ?stored @ [CHR 0x22] @
                            '' failed: '' @ e,
                  metadata_workflowId = exec_workflowId ?row,
                  metadata_executionId = Some ?eid, metadata_context = None\<rparr>" by simp
    from f1[of res] a show "writes (run_store ?r) =
           writes st @ [ExecutionCreate ?eid, ExecutionUpdate ?eid ''failed'',
                        NotificationCreate (last (notifications (run_store ?r)))]" by simp
    show "butlast (notifications (run_store ?r)) = notifications st"
      if "preserves hs (\<lambda>db. notifications db = notifications st)"
      using f2[of res] a that by simp
    show "exec_workflowId ?row = workflow_id wfl"
      if "preserves hs (\<lambda>db. ?eid < length (executions db) \<and>
                             exec_workflowId (executions db ! ?eid) = workflow_id wfl)"
      using f3[of res] a that by simp
    show "workflows (run_store ?r) (workflow_id wfl) = workflows st (workflow_id wfl)"
      if "preserves hs (\<lambda>db. workflows db (workflow_id wfl) = workflows st (workflow_id wfl))"
      using f4[of res] a that by simp
  next
    fix res
    assume a: "returned ?r = Returned res \<and> success res"
    from c1[of res] a show "status ?row = ''completed''" by simp
    from c1[of res] a show "writes (run_store ?r) =
        writes st @ [ExecutionCreate ?eid, ExecutionUpdate ?eid ''completed'']" by simp
    show "notifications (run_store ?r) = notifications st"
      if "preserves hs (\<lambda>db. notifications db = notifications st)"
      using c2[of res] a that by simp
  qed
qed

theorem failure_notification_created_witness:
  "returned (executeWorkflow ecma v8 counting_handlers fax_workflow (JObj []) empty_store 0) =
     Returned \<lparr>success = False, data = JUndefined,
               error = Some ''Action 1 failed: Unknown action type: fax'', executionId = 0\<rparr> \<and>
   preserves counting_handlers (\<lambda>db. notifications db = notifications empty_store) \<and>
   preserves counting_handlers (\<lambda>db. 0 < length (executions db) \<and>
      exec_workflowId (executions db ! 0) = workflow_id fax_workflow) \<and>
   preserves counting_handlers
     (\<lambda>db. workflows db (workflow_id fax_workflow) = workflows empty_store (workflow_id fax_workflow)) \<and>
   notifications (run_store (executeWorkflow ecma v8 counting_handlers fax_workflow
       (JObj []) empty_store 0)) =
     [\<lparr>notif_userId = ''user_1'', notif_type = ''workflow_error'',
       message = ''Workflow '' @ [CHR 0x22] @ ''Orders'' @ [CHR 0x22] @
                 '' failed: Unknown action type: fax'',
       metadata_workflowId = ''wf_1'', metadata_executionId = Some 0,
       metadata_context = None\<rparr>] \<and>
   returned (executeWorkflow ecma v8 writing_handlers notify_workflow JNull empty_store 0) =
     Returned \<lparr>success = True,
               data = JObj [(''trigger_manual'', JNull),
                            (''action_0'', JObj [(''message'', JStr ''Notification sent'')])],
               error = None, executionId = 0\<rparr> \<and>
   notifications (run_store (executeWorkflow ecma v8 writing_handlers notify_workflow JNull
       empty_store 0)) =
     [\<lparr>notif_userId = ''user_1'', notif_type = ''workflow_success'', message = ''Done'',
       metadata_workflowId = ''wf_6'', metadata_executionId = None,
       metadata_context = Some [(''trigger_manual'', JNull)]\<rparr>] \<and>
   writes (run_store (executeWorkflow ecma v8 writing_handlers notify_workflow JNull
       empty_store 0)) = [ExecutionCreate 0, ExecutionUpdate 0 ''completed'']"
proof -
  let ?f = "executeWorkflow ecma v8 counting_handlers fax_workflow (JObj []) empty_store 0"
  let ?n = "executeWorkflow ecma v8 writing_handlers notify_workflow JNull empty_store 0"
  have f: "returned ?f =
     Returned \<lparr>success = False, data = JUndefined,
               error = Some ''Action 1 failed: Unknown action type: fax'', executionId = 0\<rparr>"
    and e: "exec_error (executions (run_store ?f) ! 0) = Some ''Unknown action type: fax''"
    by (simp_all add: eval_defs)
  have n: "returned ?n =
     Returned \<lparr>success = True,
               data = JObj [(''trigger_manual'', JNull),
                            (''action_0'', JObj [(''message'', JStr ''Notification sent'')])],
               error = None, executionId = 0\<rparr>"
    and m: "notifications (run_store ?n) =
     [\<lparr>notif_userId = ''user_1'', notif_type = ''workflow_success'', message = ''Done'',
       metadata_workflowId = ''wf_6'', metadata_executionId = None,
       metadata_context = Some [(''trigger_manual'', JNull)]\<rparr>]"
    by (simp_all add: eval_defs notify_workflow_def writing_handlers_def notifying_def)
  have p: "preserves counting_handlers (\<lambda>db. notifications db = notifications empty_store)"
    "preserves counting_handlers (\<lambda>db. 0 < length (executions db) \<and>
      exec_workflowId (executions db ! 0) = workflow_id fax_workflow)"
    "preserves counting_handlers
     (\<lambda>db. workflows db (workflow_id fax_workflow) = workflows empty_store (workflow_id fax_workflow))"
    by (simp_all add: preserves_def handler_set_def counting_handlers_def counting_def)
  have s: "length (executions empty_store) = 0" "writes empty_store = []"
    "notifications empty_store = []"
    "workflow_userId (workflows empty_store (workflow_id fax_workflow)) = ''user_1''"
    "workflow_name (workflows empty_store (workflow_id fax_workflow)) = ''Orders''"
    "workflow_id fax_workflow = ''wf_1''"
    by (simp_all add: empty_store_def fax_workflow_def)
  have ns: "\<not> success \<lparr>success = False, data = JUndefined,
      error = Some ''Action 1 failed: Unknown action type: fax'', executionId = 0::nat\<rparr>"
    by simp
  note t = failure_notification_created[of ecma v8 counting_handlers fax_workflow "JObj []"
      empty_store "0::nat", unfolded Let_def s(1,2), THEN conjunct1, rule_format,
      OF conjI[OF f ns]]
  from t[THEN conjunct2, THEN conjunct1] obtain e' where
    x: "exec_error (executions (run_store ?f) ! 0) = Some e'"
      "notifications (run_store ?f) \<noteq> []"
      "last (notifications (run_store ?f)) =
            \<lparr>notif_userId = workflow_userId
               (workflows (run_store ?f) (exec_workflowId (executions (run_store ?f) ! 0))),
              notif_type = ''workflow_error'',
              message = ''Workflow '' @ [CHR 0x22] @
                workflow_name
                  (workflows (run_store ?f) (exec_workflowId (executions (run_store ?f) ! 0))) @
                [CHR 0x22] @ '' failed: '' @ e',
              metadata_workflowId = exec_workflowId (executions (run_store ?f) ! 0),
              metadata_executionId = Some 0, metadata_context = None\<rparr>"
    by blast
  note y = t[THEN conjunct2, THEN conjunct2, THEN conjunct2, THEN conjunct1, rule_format, OF p(1)]
    t[THEN conjunct2, THEN conjunct2, THEN conjunct2, THEN conjunct2, THEN conjunct1,
      rule_format, OF p(2)]
    t[THEN conjunct2, THEN conjunct2, THEN conjunct2, THEN conjunct2, THEN conjunct2,
      rule_format, OF p(3)]
  from x(1) e have e': "e' = ''Unknown action type: fax''" by simp
  have "notifications (run_store ?f) =
      butlast (notifications (run_store ?f)) @ [last (notifications (run_store ?f))]"
    using x(2) by simp
  then have "notifications (run_store ?f) =
     [\<lparr>notif_userId = ''user_1'', notif_type = ''workflow_error'',
       message = ''Workflow '' @ [CHR 0x22] @ ''Orders'' @ [CHR 0x22] @
                 '' failed: Unknown action type: fax'',
       metadata_workflowId = ''wf_1'', metadata_executionId = Some 0,
       metadata_context = None\<rparr>]"
    using y(1) y(3)[unfolded s(6)] unfolding x(3) e' y(2) s(6)
    by (simp add: empty_store_def)
  moreover have "success \<lparr>success = True,
               data = JObj [(''trigger_manual'', JNull),
                            (''action_0'', JObj [(''message'', JStr ''Notification sent'')])],
               error = None, executionId = 0::nat\<rparr>"
    by simp
  note u = failure_notification_created[of ecma v8 writing_handlers notify_workflow JNull
      empty_store "0::nat", unfolded Let_def s(1,2), THEN conjunct2, rule_format,
      OF conjI[OF n this]]
  ultimately show ?thesis
    using f n m p u[THEN conjunct2, THEN conjunct1] by simp
qed

text \<open>
  C5. \<^verbatim>\<open>validateTrigger\<close> succeeds with the raw trigger data for a trigger whose type is
  \<^verbatim>\<open>webhook\<close>, \<^verbatim>\<open>manual\<close>, \<^verbatim>\<open>email\<close> or \<^verbatim>\<open>schedule\<close>, and fails with
  \<^verbatim>\<open>Unknown trigger type: <type>\<close> for any other type. In a run, the first trigger of
  an unknown type (the ones before it being of known types) makes \<^verbatim>\<open>executeWorkflow\<close>
  return that error, the Execution is \<^verbatim>\<open>failed\<close> with exactly that error, and no
  handler has run: the world is as it was, whatever the handlers are.
\<close>

theorem trigger_validation:
  "(read_prop trigger ''type'' = JStr t \<and> t \<in> valid_trigger_types \<longrightarrow>
      validateTrigger rt ms trigger c =
        Returned \<lparr>success = True, data = triggerData c, error = None\<rparr>) \<and>
   (read_prop trigger ''type'' = JStr t \<and> t \<notin> valid_trigger_types \<longrightarrow>
      validateTrigger rt ms trigger c =
        Returned \<lparr>success = False, data = JUndefined,
                  error = Some (''Unknown trigger type: '' @ t)\<rparr>) \<and>
   (triggers (configuration wfl) = Some (pre @ trigger # post) \<and>
    (\<forall>p \<in> set pre. \<exists>u \<in> valid_trigger_types. read_prop p ''type'' = JStr u) \<and>
    read_prop trigger ''type'' = JStr t \<and> t \<notin> valid_trigger_types \<longrightarrow>
      (let r = executeWorkflow rt ms hs wfl td st w;
           row = executions (run_store r) ! length (executions st)
       in returned r = Returned \<lparr>success = False, data = JUndefined,
                                 error = Some (''Unknown trigger type: '' @ t),
                                 executionId = length (executions st)\<rparr> \<and>
          status row = ''failed'' \<and>
          exec_error row = Some (''Unknown trigger type: '' @ t) \<and>
          run_world r = w))"
proof (intro conjI impI)
  assume "read_prop trigger ''type'' = JStr t \<and> t \<in> valid_trigger_types"
  then show "validateTrigger rt ms trigger c =
        Returned \<lparr>success = True, data = triggerData c, error = None\<rparr>"
    by (simp add: validateTrigger_valid)
next
  assume "read_prop trigger ''type'' = JStr t \<and> t \<notin> valid_trigger_types"
  then show "validateTrigger rt ms trigger c =
        Returned \<lparr>success = False, data = JUndefined,
                  error = Some (''Unknown trigger type: '' @ t)\<rparr>"
    by (simp add: validateTrigger_unknown)
next
  assume a: "triggers (configuration wfl) = Some (pre @ trigger # post) \<and>
    (\<forall>p \<in> set pre. \<exists>u \<in> valid_trigger_types. read_prop p ''type'' = JStr u) \<and>
    read_prop trigger ''type'' = JStr t \<and> t \<notin> valid_trigger_types"
  let ?eid = "length (executions st)" and ?st0 = "created_store st wfl td"
  have len: "?eid < length (executions ?st0)" by (rule created_store_length)
  from a have pre: "\<forall>p \<in> set pre. \<exists>u \<in> valid_trigger_types. read_prop p ''type'' = JStr u"
    by simp
  from run_triggers_valid_prefix[OF pre, where c = "seeded_context wfl td" and ms = ms
      and eid = ?eid and rest = "trigger # post" and st = ?st0 and w = w]
  obtain c' where
    "run_triggers rt ms ?eid (pre @ trigger # post) (seeded_context wfl td) ?st0 w =
     run_triggers rt ms ?eid (trigger # post) c' ?st0 w"
    by blast
  moreover from a have "run_triggers rt ms ?eid (trigger # post) c' ?st0 w =
      Return \<lparr>success = False, data = JUndefined, error = Some (''Unknown trigger type: '' @ t),
              executionId = ?eid\<rparr>
        (terminal_store ?st0 ?eid ''failed'' (Some (''Unknown trigger type: '' @ t)) None) w c'"
    by (simp add: validateTrigger_unknown updateExecutionStatus_existing[OF len])
  ultimately have "executeWorkflow rt ms hs wfl td st w =
      \<lparr>returned = Returned \<lparr>success = False, data = JUndefined,
                            error = Some (''Unknown trigger type: '' @ t), executionId = ?eid\<rparr>,
       run_store = terminal_store ?st0 ?eid ''failed'' (Some (''Unknown trigger type: '' @ t)) None,
       run_world = w, run_context = c'\<rparr>"
    using a by (simp add: executeWorkflow_unfold)
  then show "let r = executeWorkflow rt ms hs wfl td st w;
           row = executions (run_store r) ! length (executions st)
       in returned r = Returned \<lparr>success = False, data = JUndefined,
                                 error = Some (''Unknown trigger type: '' @ t),
                                 executionId = length (executions st)\<rparr> \<and>
          status row = ''failed'' \<and>
          exec_error row = Some (''Unknown trigger type: '' @ t) \<and>
          run_world r = w"
    by (simp add: Let_def terminal_store_row[OF len])
qed

theorem trigger_validation_witness:
  "read_prop (JObj [(''type'', JStr ''webhook'')]) ''type'' = JStr ''webhook'' \<and>
   ''webhook'' \<in> valid_trigger_types \<and>
   validateTrigger ecma v8 (JObj [(''type'', JStr ''webhook'')]) (seeded_context pigeon_workflow JNull) =
     Returned \<lparr>success = True, data = JNull, error = None\<rparr> \<and>
   read_prop (JObj [(''type'', JStr ''carrier_pigeon'')]) ''type'' = JStr ''carrier_pigeon'' \<and>
   ''carrier_pigeon'' \<notin> valid_trigger_types \<and>
   validateTrigger ecma v8 (JObj [(''type'', JStr ''carrier_pigeon'')])
       (seeded_context pigeon_workflow JNull) =
     Returned \<lparr>success = False, data = JUndefined,
               error = Some ''Unknown trigger type: carrier_pigeon''\<rparr> \<and>
   triggers (configuration pigeon_workflow) =
     Some ([JObj [(''type'', JStr ''webhook'')]] @ JObj [(''type'', JStr ''carrier_pigeon'')] # []) \<and>
   returned (executeWorkflow ecma v8 counting_handlers pigeon_workflow JNull empty_store 0) =
     Returned \<lparr>success = False, data = JUndefined,
               error = Some ''Unknown trigger type: carrier_pigeon'', executionId = 0\<rparr> \<and>
   run_world (executeWorkflow ecma v8 counting_handlers pigeon_workflow JNull empty_store 0) = 0"
proof -
  have h: "read_prop (JObj [(''type'', JStr ''webhook'')]) ''type'' = JStr ''webhook''"
    "''webhook'' \<in> valid_trigger_types"
    "read_prop (JObj [(''type'', JStr ''carrier_pigeon'')]) ''type'' = JStr ''carrier_pigeon''"
    "''carrier_pigeon'' \<notin> valid_trigger_types"
    "triggers (configuration pigeon_workflow) =
       Some ([JObj [(''type'', JStr ''webhook'')]] @ JObj [(''type'', JStr ''carrier_pigeon'')] # [])"
    "\<forall>p \<in> set [JObj [(''type'', JStr ''webhook'')]].
        \<exists>u \<in> valid_trigger_types. read_prop p ''type'' = JStr u"
    "length (executions empty_store) = 0"
    "triggerData (seeded_context pigeon_workflow JNull) = JNull"
    by (simp_all add: read_prop_def valid_trigger_types_def pigeon_workflow_def empty_store_def
        seeded_context_def)
  from trigger_validation[where trigger = "JObj [(''type'', JStr ''webhook'')]"
      and t = "''webhook''" and rt = ecma and ms = v8
      and c = "seeded_context pigeon_workflow JNull"]
    trigger_validation[where trigger = "JObj [(''type'', JStr ''carrier_pigeon'')]"
      and t = "''carrier_pigeon''" and rt = ecma and ms = v8
      and c = "seeded_context pigeon_workflow JNull" and wfl = pigeon_workflow
      and pre = "[JObj [(''type'', JStr ''webhook'')]]" and post = "[]"
      and hs = counting_handlers and td = JNull and st = empty_store and w = "0::nat"]
    h
  show ?thesis
    by (simp add: Let_def)
qed

text \<open>
  C10. When \<^verbatim>\<open>configuration.triggers\<close> is missing or empty, no trigger is validated:
  the run is the action loop started from the seeded context (whose \<^verbatim>\<open>stepResults\<close>
  are empty) followed by the completion. When \<^verbatim>\<open>configuration.actions\<close> is missing or
  empty as well, \<^verbatim>\<open>executeWorkflow\<close> returns \<^verbatim>\<open>success: true\<close> with the empty mapping
  as data, the Execution is \<^verbatim>\<open>completed\<close> with the empty mapping as output, and no
  handler has run.
\<close>

theorem no_triggers_no_actions:
  "(triggers (configuration wfl) = None \<or> triggers (configuration wfl) = Some []) \<longrightarrow>
     (let eid = length (executions st);
          st0 = created_store st wfl td;
          r = executeWorkflow rt ms hs wfl td st w;
          row = executions (run_store r) ! eid
      in r = after_loop ms eid
               (case actions (configuration wfl) of
                  Some as \<Rightarrow> run_actions rt ms hs eid 0 as (seeded_context wfl td) st0 w
                | None \<Rightarrow> Continue (seeded_context wfl td) st0 w)
               (complete_run ms eid) \<and>
         (actions (configuration wfl) = None \<or> actions (configuration wfl) = Some [] \<longrightarrow>
            returned r = Returned \<lparr>success = True, data = JObj [], error = None, executionId = eid\<rparr> \<and>
            status row = ''completed'' \<and> exec_output row = Some (JObj []) \<and>
            exec_error row = None \<and> run_world r = w \<and>
            run_context r = seeded_context wfl td))"
proof
  assume t: "triggers (configuration wfl) = None \<or> triggers (configuration wfl) = Some []"
  let ?eid = "length (executions st)" and ?st0 = "created_store st wfl td"
  have len: "?eid < length (executions ?st0)" by (rule created_store_length)
  have sr: "stepResults (seeded_context wfl td) = []"
    by (simp add: seeded_context_def Let_def)
  have 1: "executeWorkflow rt ms hs wfl td st w =
      after_loop ms ?eid
        (case actions (configuration wfl) of
           Some as \<Rightarrow> run_actions rt ms hs ?eid 0 as (seeded_context wfl td) ?st0 w
         | None \<Rightarrow> Continue (seeded_context wfl td) ?st0 w)
        (complete_run ms ?eid)"
    using t by (auto simp: executeWorkflow_unfold split: option.splits)
  have 2: "executeWorkflow rt ms hs wfl td st w =
      complete_run ms ?eid (seeded_context wfl td) ?st0 w"
    if "actions (configuration wfl) = None \<or> actions (configuration wfl) = Some []"
    using that unfolding 1 by auto
  show "let eid = length (executions st);
          st0 = created_store st wfl td;
          r = executeWorkflow rt ms hs wfl td st w;
          row = executions (run_store r) ! eid
      in r = after_loop ms eid
               (case actions (configuration wfl) of
                  Some as \<Rightarrow> run_actions rt ms hs eid 0 as (seeded_context wfl td) st0 w
                | None \<Rightarrow> Continue (seeded_context wfl td) st0 w)
               (complete_run ms eid) \<and>
         (actions (configuration wfl) = None \<or> actions (configuration wfl) = Some [] \<longrightarrow>
            returned r = Returned \<lparr>success = True, data = JObj [], error = None, executionId = eid\<rparr> \<and>
            status row = ''completed'' \<and> exec_output row = Some (JObj []) \<and>
            exec_error row = None \<and> run_world r = w \<and>
            run_context r = seeded_context wfl td)"
    unfolding Let_def
  proof (intro conjI impI)
    show "executeWorkflow rt ms hs wfl td st w =
      after_loop ms ?eid
        (case actions (configuration wfl) of
           Some as \<Rightarrow> run_actions rt ms hs ?eid 0 as (seeded_context wfl td) ?st0 w
         | None \<Rightarrow> Continue (seeded_context wfl td) ?st0 w)
        (complete_run ms ?eid)" by (rule 1)
  qed (simp_all add: 2 complete_run_existing[OF len] sr terminal_store_row[OF len])
qed

theorem no_triggers_no_actions_witness:
  "triggers (configuration idle_workflow) = Some [] \<and>
   actions (configuration idle_workflow) = None \<and>
   returned (executeWorkflow ecma v8 counting_handlers idle_workflow JNull empty_store 0) =
     Returned \<lparr>success = True, data = JObj [], error = None, executionId = 0\<rparr> \<and>
   status (executions (run_store
     (executeWorkflow ecma v8 counting_handlers idle_workflow JNull empty_store 0)) ! 0) =
     ''completed'' \<and>
   exec_output (executions (run_store
     (executeWorkflow ecma v8 counting_handlers idle_workflow JNull empty_store 0)) ! 0) =
     Some (JObj [])"
proof -
  have h: "triggers (configuration idle_workflow) = Some []"
    "actions (configuration idle_workflow) = None"
    "length (executions empty_store) = 0"
    by (simp_all add: idle_workflow_def empty_store_def)
  note t = no_triggers_no_actions[of idle_workflow empty_store JNull ecma v8 counting_handlers
      "0::nat", unfolded Let_def h(3), rule_format, OF disjI2, OF h(1)]
  note u = t[THEN conjunct2, rule_format, OF disjI1, OF h(2)]
  from h u show ?thesis
    by blast
qed

text \<open>
  C6. The step results and the variables only grow, and no step changes the entry of
  another step. A successful action of index \<open>i\<close> adds \<^verbatim>\<open>action_<i>\<close> to the step
  results and \<^verbatim>\<open>action_<i>_result\<close> to the variables, both with the data of its result.
  For the trigger loop: from a context whose trigger entries hold the
  trigger data, every entry is kept (\<open>grows\<close>), and when all triggers are valid the
  step results gain exactly the keys \<^verbatim>\<open>trigger_<type>\<close>, each holding the trigger data,
  while the variables stay as they are. For the action loop: from a context without
  entries for the actions still to run, every entry is kept. If the actions before
  index \<open>k\<close> succeed and action \<open>k\<close> makes the loop return, then the loop over the
  whole list returns the same result, with the same store, world and context,
  whatever follows action \<open>k\<close>: no later action runs, and the step results hold the
  entries they had plus exactly \<^verbatim>\<open>action_0\<close> to \<^verbatim>\<open>action_<k-1>\<close>. For a whole run
  this makes the keys of the step results the trigger keys and \<^verbatim>\<open>action_0\<close> to
  \<^verbatim>\<open>action_<k-1>\<close>, and the context of the run extends the seeded one.
\<close>

theorem step_results_grow:
  "map_of (stepResults (store_action_result i d c)) = (map_of (stepResults c))(action_key i \<mapsto> d) \<and>
   map_of (variables (store_action_result i d c)) = (map_of (variables c))(result_key i \<mapsto> d) \<and>
   (trigger_entries c \<longrightarrow> grows c (flow_context (run_triggers rt ms eid ts c st w))) \<and>
   (trigger_entries c \<and> fresh_from 0 c \<and> run_triggers rt ms eid ts c st w = Continue c' st2 w' \<longrightarrow>
      trigger_entries c' \<and> fresh_from 0 c' \<and> variables c' = variables c \<and>
      keys_of (stepResults c') = keys_of (stepResults c) \<union> trigger_key ` trigger_types ts \<and>
      (\<forall>t \<in> trigger_types ts. map_of (stepResults c') (trigger_key t) = Some (triggerData c))) \<and>
   (fresh_from i c \<longrightarrow> grows c (flow_context (run_actions rt ms hs eid i as c st w))) \<and>
   (fresh_from i c \<and>
    run_actions rt ms hs eid i pre c st w = Continue c1 sa w1 \<and>
    run_actions rt ms hs eid (i + length pre) [a] c1 sa w1 = Return res st1 w2 c2 \<longrightarrow>
      run_actions rt ms hs eid i (pre @ a # post) c st w = Return res st1 w2 c1 \<and>
      keys_of (stepResults c1) = keys_of (stepResults c) \<union> action_key ` {i..<i + length pre} \<and>
      keys_of (variables c1) = keys_of (variables c) \<union> result_key ` {i..<i + length pre}) \<and>
   (action_list wfl = pre @ a # post \<and>
    run_triggers rt ms (length (executions st')) (trigger_list wfl) (seeded_context wfl td)
      (created_store st' wfl td) w = Continue c sc w' \<and>
    run_actions rt ms hs (length (executions st')) 0 pre c sc w' = Continue c1 sa w1 \<and>
    run_actions rt ms hs (length (executions st')) (length pre) [a] c1 sa w1 =
      Return res st1 w2 c2 \<longrightarrow>
      executeWorkflow rt ms hs wfl td st' w =
        \<lparr>returned = Returned res, run_store = st1, run_world = w2, run_context = c1\<rparr> \<and>
      keys_of (stepResults c1) =
        trigger_key ` trigger_types (trigger_list wfl) \<union> action_key ` {..<length pre} \<and>
      keys_of (variables c1) = insert ''trigger'' (result_key ` {..<length pre})) \<and>
   grows (seeded_context wfl td) (run_context (executeWorkflow rt ms hs wfl td st' w))"
proof (intro conjI)
  show "map_of (stepResults (store_action_result i d c)) = (map_of (stepResults c))(action_key i \<mapsto> d)"
    by (simp add: store_action_result_def map_of_obj_set action_key_def)
next
  show "map_of (variables (store_action_result i d c)) = (map_of (variables c))(result_key i \<mapsto> d)"
    by (simp add: store_action_result_def map_of_obj_set result_key_def)
next
  show "trigger_entries c \<longrightarrow> grows c (flow_context (run_triggers rt ms eid ts c st w))"
    by (simp add: run_triggers_grows)
next
  show "trigger_entries c \<and> fresh_from 0 c \<and> run_triggers rt ms eid ts c st w = Continue c' st2 w' \<longrightarrow>
      trigger_entries c' \<and> fresh_from 0 c' \<and> variables c' = variables c \<and>
      keys_of (stepResults c') = keys_of (stepResults c) \<union> trigger_key ` trigger_types ts \<and>
      (\<forall>t \<in> trigger_types ts. map_of (stepResults c') (trigger_key t) = Some (triggerData c))"
    using run_triggers_Continue[where c = c and rt = rt and ms = ms and eid = eid and ts = ts and st = st
        and w = w and c' = c' and st' = st2 and w' = w' and i = 0] by simp
next
  show "fresh_from i c \<longrightarrow> grows c (flow_context (run_actions rt ms hs eid i as c st w))"
    by (simp add: run_actions_grows)
next
  show "fresh_from i c \<and>
    run_actions rt ms hs eid i pre c st w = Continue c1 sa w1 \<and>
    run_actions rt ms hs eid (i + length pre) [a] c1 sa w1 = Return res st1 w2 c2 \<longrightarrow>
      run_actions rt ms hs eid i (pre @ a # post) c st w = Return res st1 w2 c1 \<and>
      keys_of (stepResults c1) = keys_of (stepResults c) \<union> action_key ` {i..<i + length pre} \<and>
      keys_of (variables c1) = keys_of (variables c) \<union> result_key ` {i..<i + length pre}"
  proof
    assume a: "fresh_from i c \<and>
      run_actions rt ms hs eid i pre c st w = Continue c1 sa w1 \<and>
      run_actions rt ms hs eid (i + length pre) [a] c1 sa w1 = Return res st1 w2 c2"
    then have f: "fresh_from i c"
      and pr: "run_actions rt ms hs eid i pre c st w = Continue c1 sa w1"
      and fl: "run_actions rt ms hs eid (i + length pre) [a] c1 sa w1 = Return res st1 w2 c2"
      by simp_all
    have k: "keys_of (stepResults c1) = keys_of (stepResults c) \<union> action_key ` {i..<i + length pre}"
      "keys_of (variables c1) = keys_of (variables c) \<union> result_key ` {i..<i + length pre}"
      using run_actions_Continue[OF f pr] by simp_all
    from run_actions_Return_single[OF fl, where post = post]
    have "run_actions rt ms hs eid (i + length pre) (a # post) c1 sa w1 = Return res st1 w2 c1"
      by simp
    with run_actions_append[OF pr, where rest = "a # post"]
    have "run_actions rt ms hs eid i (pre @ a # post) c st w = Return res st1 w2 c1"
      by simp
    with k show "run_actions rt ms hs eid i (pre @ a # post) c st w = Return res st1 w2 c1 \<and>
        keys_of (stepResults c1) = keys_of (stepResults c) \<union> action_key ` {i..<i + length pre} \<and>
        keys_of (variables c1) = keys_of (variables c) \<union> result_key ` {i..<i + length pre}"
      by simp
  qed
next
  let ?eid = "length (executions st')" and ?st0 = "created_store st' wfl td"
  show "action_list wfl = pre @ a # post \<and>
    run_triggers rt ms ?eid (trigger_list wfl) (seeded_context wfl td) ?st0 w = Continue c sc w' \<and>
    run_actions rt ms hs ?eid 0 pre c sc w' = Continue c1 sa w1 \<and>
    run_actions rt ms hs ?eid (length pre) [a] c1 sa w1 = Return res st1 w2 c2 \<longrightarrow>
      executeWorkflow rt ms hs wfl td st' w =
        \<lparr>returned = Returned res, run_store = st1, run_world = w2, run_context = c1\<rparr> \<and>
      keys_of (stepResults c1) =
        trigger_key ` trigger_types (trigger_list wfl) \<union> action_key ` {..<length pre} \<and>
      keys_of (variables c1) = insert ''trigger'' (result_key ` {..<length pre})"
  proof
    assume a: "action_list wfl = pre @ a # post \<and>
      run_triggers rt ms ?eid (trigger_list wfl) (seeded_context wfl td) ?st0 w = Continue c sc w' \<and>
      run_actions rt ms hs ?eid 0 pre c sc w' = Continue c1 sa w1 \<and>
      run_actions rt ms hs ?eid (length pre) [a] c1 sa w1 = Return res st1 w2 c2"
    then have al: "action_list wfl = pre @ a # post"
      and tr: "run_triggers rt ms ?eid (trigger_list wfl) (seeded_context wfl td) ?st0 w = Continue c sc w'"
      and pr: "run_actions rt ms hs ?eid 0 pre c sc w' = Continue c1 sa w1"
      and fl: "run_actions rt ms hs ?eid (0 + length pre) [a] c1 sa w1 = Return res st1 w2 c2"
      by simp_all
    from run_triggers_Continue[OF seeded_context_props(1) tr, where i = 0]
      seeded_context_props(2,3,4)[of wfl td]
    have c: "fresh_from 0 c" "variables c = variables (seeded_context wfl td)"
      "keys_of (stepResults c) = trigger_key ` trigger_types (trigger_list wfl)"
      by simp_all
    from run_actions_Continue[OF c(1) pr] c(2,3) seeded_context_props(4)[of wfl td]
    have k: "keys_of (stepResults c1) =
          trigger_key ` trigger_types (trigger_list wfl) \<union> action_key ` {..<length pre}"
        "keys_of (variables c1) = insert ''trigger'' (result_key ` {..<length pre})"
      by (simp_all add: atLeast0LessThan)
    from run_actions_Return_single[OF fl, where post = post]
    have "run_actions rt ms hs ?eid (0 + length pre) (a # post) c1 sa w1 = Return res st1 w2 c1"
      by simp
    with run_actions_append[OF pr, where rest = "a # post"] al
    have "run_actions rt ms hs ?eid 0 (action_list wfl) c sc w' = Return res st1 w2 c1"
      by simp
    with tr have "executeWorkflow rt ms hs wfl td st' w =
          \<lparr>returned = Returned res, run_store = st1, run_world = w2, run_context = c1\<rparr>"
      by (simp add: executeWorkflow_loops)
    with k show "executeWorkflow rt ms hs wfl td st' w =
          \<lparr>returned = Returned res, run_store = st1, run_world = w2, run_context = c1\<rparr> \<and>
        keys_of (stepResults c1) =
          trigger_key ` trigger_types (trigger_list wfl) \<union> action_key ` {..<length pre} \<and>
        keys_of (variables c1) = insert ''trigger'' (result_key ` {..<length pre})"
      by simp
  qed
next
  show "grows (seeded_context wfl td) (run_context (executeWorkflow rt ms hs wfl td st' w))"
    by (rule executeWorkflow_grows)
qed

theorem step_results_grow_witness:
  "returned (executeWorkflow ecma v8 counting_handlers chain_workflow (JObj [(''ms'', JNum ''50'')])
      empty_store 0) =
     Returned \<lparr>success = False, data = JUndefined,
               error = Some ''Action 2 failed: Unknown action type: fax'', executionId = 0\<rparr> \<and>
   run_world (executeWorkflow ecma v8 counting_handlers chain_workflow (JObj [(''ms'', JNum ''50'')])
      empty_store 0) = 1 \<and>
   keys_of (stepResults (run_context (executeWorkflow ecma v8 counting_handlers chain_workflow
      (JObj [(''ms'', JNum ''50'')]) empty_store 0))) = {''trigger_webhook'', ''action_0''} \<and>
   grows (seeded_context chain_workflow (JObj [(''ms'', JNum ''50'')]))
     (run_context (executeWorkflow ecma v8 counting_handlers chain_workflow
        (JObj [(''ms'', JNum ''50'')]) empty_store 0))"
proof -
  let ?td = "JObj [(''ms'', JNum ''50'')]"
  let ?created = "created_store empty_store chain_workflow ?td"
  let ?seeded = "seeded_context chain_workflow ?td"
  let ?triggered = "store_trigger_result ''webhook'' ?td ?seeded"
  let ?stored = "store_action_result 0 (JObj [(''duration'', JStr ''50'')]) ?triggered"
  let ?delay = "JObj [(''type'', JStr ''delay''),
                      (''config'', JObj [(''duration'', JStr ''{{triggerData.ms}}'')])]"
  let ?fax = "JObj [(''type'', JStr ''fax''), (''config'', JObj [])]"
  let ?res = "\<lparr>success = False, data = JUndefined,
               error = Some ''Action 2 failed: Unknown action type: fax'', executionId = 0\<rparr>"
  have len: "length (executions empty_store) = 0"
    by (simp add: empty_store_def)
  have al: "action_list chain_workflow = [?delay] @ ?fax # [JObj [(''type'', JStr ''delay''), (''config'', JObj [])]]"
    and tl: "trigger_list chain_workflow = [JObj [(''type'', JStr ''webhook'')]]"
    by (simp_all add: action_list_def trigger_list_def chain_workflow_def)
  have tr: "run_triggers ecma v8 0 (trigger_list chain_workflow) ?seeded ?created (0::nat) =
      Continue ?triggered ?created 0"
    unfolding tl by (simp add: validateTrigger_def read_prop_def Let_def seeded_context_def)
  have pr: "run_actions ecma v8 counting_handlers 0 0 [?delay] ?triggered ?created (0::nat) =
      Continue ?stored ?created 1"
    by (simp add: eval_defs seeded_context_def)
  have fl: "\<exists>st1. run_actions ecma v8 counting_handlers 0 (length [?delay]) [?fax] ?stored ?created (1::nat) =
      Return ?res st1 1 ?stored"
    by (simp add: eval_defs seeded_context_def created_store_def)
  then obtain st1 where fl1: "run_actions ecma v8 counting_handlers 0 (length [?delay]) [?fax] ?stored ?created (1::nat) =
      Return ?res st1 1 ?stored" ..
  note t = step_results_grow[where wfl = chain_workflow and pre = "[?delay]" and a = ?fax
      and st' = empty_store and td = ?td and ms = v8 and rt = ecma and hs = counting_handlers
      and w = "0::nat" and c = ?triggered and sc = ?created and w' = "0::nat" and ?c1.0 = ?stored
      and sa = ?created and ?w1.0 = "1::nat"
      and res = ?res and ?st1.0 = st1 and ?w2.0 = "1::nat" and ?c2.0 = ?stored, unfolded len]
  note u = t[THEN conjunct2, THEN conjunct2, THEN conjunct2, THEN conjunct2, THEN conjunct2,
      THEN conjunct2]
  from u[THEN conjunct1, rule_format, OF conjI[OF al conjI[OF tr conjI[OF pr fl1]]]]
  have run: "executeWorkflow ecma v8 counting_handlers chain_workflow ?td empty_store 0 =
      \<lparr>returned = Returned ?res, run_store = st1, run_world = 1, run_context = ?stored\<rparr>"
    and keys: "keys_of (stepResults ?stored) =
      trigger_key ` trigger_types (trigger_list chain_workflow) \<union> action_key ` {..<length [?delay]}"
    by simp_all
  have tt: "trigger_types (trigger_list chain_workflow) = {''webhook''}"
    unfolding tl by (auto simp: trigger_types_def read_prop_def)
  have ak: "action_key ` {..<length [?delay]} = {''action_0''}"
    by (simp add: action_key_def decimal.simps digit_char_def lessThan_Suc)
  from u[THEN conjunct2] run keys tt ak show ?thesis
    by (simp add: trigger_key_def)
qed





text \<open>
  C8. Sequences are resolved element by element and scalars are returned unchanged,
  but a mapping does not always keep its keys: the copy loop writes
  \<^verbatim>\<open>result[key] = ...\<close> on a fresh object, and for the key \<^verbatim>\<open>__proto__\<close> (an own
  key of \<^verbatim>\<open>JSON.parse('{"__proto__": "x", "a": 1}')\<close>) this write runs the inherited
  setter and creates no entry. The result has the key \<^verbatim>\<open>a\<close> only.
\<close>

theorem proto_key_is_dropped:
  "substituteVariables ecma (JObj [(''__proto__'', JStr ''x''), (''a'', JNum ''1'')]) (JObj []) =
     JObj [(''a'', JNum ''1'')]"
  by (simp add: eval_defs)

text \<open>
  C9. Resolving against the empty context is not the identity. The path
  \<^verbatim>\<open>constructor\<close> is not a key of \<^verbatim>\<open>{}\<close>, but \<^verbatim>\<open>current[key]\<close> finds the built-in
  function \<^verbatim>\<open>Object\<close> on the prototype chain, and the placeholder is replaced by its
  string form. A mapping with the key \<^verbatim>\<open>__proto__\<close> loses that key, as for C8.
\<close>

theorem empty_context_resolves_builtins:
  "substituteVariables ecma (JStr ''{{constructor}}'') (JObj []) =
     JStr ''function Object() { [native code] }'' \<and>
   substituteVariables ecma (JObj [(''__proto__'', JNum ''1'')]) (JObj []) = JObj []"
  by (simp add: eval_defs)

end
